theory Spec2Isabelle
  imports Complex_Main "HOL-Library.AList" "HOL-Library.Log_Nat"
begin

section \<open>Python primitives used by the sources\<close>

text \<open>
  A Python \<open>str\<close> is modelled as a \<open>string\<close>; one \<open>char\<close> stands for one character of
  the Python string, so \<open>length\<close> is Python's \<open>len\<close>. Python integers are \<open>int\<close>.
  A Python float is an IEEE 754 binary64 number; a finite float is modelled by its
  value, a \<open>real\<close>, and every float operation by the exact operation followed by the
  rounding of the format (\<open>float_round\<close> below).
\<close>

text \<open>
  \<open>xs[a:b]\<close>: a negative bound counts from the end of the sequence, and both bounds
  are clamped into \<open>0..len(xs)\<close>; the slice is empty when the bounds cross.
\<close>

definition py_index :: "int \<Rightarrow> int \<Rightarrow> int" where
  "py_index n i = (if i < 0 then max (i + n) 0 else min i n)"

definition py_slice :: "'a list \<Rightarrow> int \<Rightarrow> int \<Rightarrow> 'a list" where
  "py_slice xs a b =
     (let n = int (length xs); lo = py_index n a; hi = py_index n b
      in take (nat (hi - lo)) (drop (nat lo) xs))"

text \<open>\<open>s.rfind(c)\<close> for a one-character needle: the highest index of \<open>c\<close>, or \<open>-1\<close>.\<close>

fun rfind :: "string \<Rightarrow> char \<Rightarrow> int" where
  "rfind [] c = - 1"
| "rfind (x # xs) c =
     (let r = rfind xs c
      in if 0 \<le> r then r + 1 else if x = c then 0 else - 1)"

text \<open>
  \<open>s.strip()\<close> removes leading and trailing whitespace. For the characters of a
  \<open>string\<close> Python's \<open>str.isspace\<close> holds of the code points 9 to 13, 28 to 32,
  133 and 160.
\<close>

definition isspace :: "char \<Rightarrow> bool" where
  "isspace c =
     (let k = (of_char c :: nat)
      in (9 \<le> k \<and> k \<le> 13) \<or> (28 \<le> k \<and> k \<le> 32) \<or> k = 133 \<or> k = 160)"

definition strip :: "string \<Rightarrow> string" where
  "strip s = rev (dropWhile isspace (rev (dropWhile isspace s)))"

text \<open>\<open>str(n)\<close> for an integer: its decimal numeral.\<close>

fun str_nat :: "nat \<Rightarrow> string" where
  "str_nat n =
     (if n < 10 then [char_of (48 + n)]
      else str_nat (n div 10) @ [char_of (48 + n mod 10)])"

definition str_int :: "int \<Rightarrow> string" where
  "str_int i = (if i < 0 then CHR ''-'' # str_nat (nat (- i)) else str_nat (nat i))"

text \<open>\<open>sep.join(parts)\<close>.\<close>

fun join :: "string \<Rightarrow> string list \<Rightarrow> string" where
  "join sep [] = []"
| "join sep [p] = p"
| "join sep (p # q # ps) = p @ sep @ join sep (q # ps)"

text \<open>
  The values stored in metadata dictionaries: \<open>load_pdf\<close> and \<open>chunk_text\<close> store
  strings and integers. \<open>py_str\<close> is the rendering an f-string gives them.
\<close>

datatype pyval = PStr string | PInt int

fun py_str :: "pyval \<Rightarrow> string" where
  "py_str (PStr s) = s"
| "py_str (PInt i) = str_int i"

text \<open>
  A \<open>dict\<close> keeps its keys in insertion order: an association list with distinct
  keys, read with \<open>map_of\<close>. \<open>dict_get\<close> is \<open>d.get(key, default)\<close> and \<open>dict_set\<close>
  is \<open>d[key] = value\<close>, which replaces the value of a key already there and appends a
  new key at the end.
\<close>

type_synonym pydict = "(string \<times> pyval) list"

definition dict_get :: "('k \<times> 'v) list \<Rightarrow> 'k \<Rightarrow> 'v \<Rightarrow> 'v" where
  "dict_get d k dflt = (case map_of d k of None \<Rightarrow> dflt | Some v \<Rightarrow> v)"

text \<open>The value of a key that may be absent, or the default given to \<open>get\<close>.\<close>

definition dict_default :: "'v option \<Rightarrow> 'v \<Rightarrow> 'v" where
  "dict_default v dflt = (case v of None \<Rightarrow> dflt | Some x \<Rightarrow> x)"

definition dict_set :: "('k \<times> 'v) list \<Rightarrow> 'k \<Rightarrow> 'v \<Rightarrow> ('k \<times> 'v) list" where
  "dict_set d k v = AList.update k v d"

section \<open>The chunker: \<open>app/services/pdf_processor.py\<close>\<close>

record DocumentChunk =
  content :: string
  metadata :: pydict
  chunk_id :: string

text \<open>The two settings \<open>PDFProcessor.__init__\<close> copies from the configuration.\<close>

record PDFProcessor =
  chunk_size :: int
  chunk_overlap :: int

text \<open>
  One pass through the body of the \<open>while\<close> loop of \<open>chunk_text\<close>, up to the point
  where the chunk's text and its \<open>end\<close> are fixed. The test
  \<open>break_point > self.chunk_size * 0.5\<close> compares an integer with a float; Python
  compares the two exactly and halving a float is exact, so for a \<open>chunk_size\<close> that a
  float holds exactly (any below \<open>2 ^ 53\<close>) the test is \<open>2 * break_point > chunk_size\<close>.
\<close>

definition window_cut :: "PDFProcessor \<Rightarrow> string \<Rightarrow> int \<Rightarrow> string \<times> int" where
  "window_cut self text start =
     (let end = start + chunk_size self;
          chunk_text = py_slice text start end
      in if end < int (length text) then
           (let last_period = rfind chunk_text CHR ''.'';
                last_newline = rfind chunk_text CHR 0x0A;
                break_point = max last_period last_newline
            in if chunk_size self < 2 * break_point
               then (py_slice chunk_text 0 (break_point + 1), start + break_point + 1)
               else (chunk_text, end))
         else (chunk_text, end))"

definition make_chunk :: "pydict \<Rightarrow> int \<Rightarrow> int \<Rightarrow> string \<times> int \<Rightarrow> DocumentChunk" where
  "make_chunk md chunk_num start wc =
     \<lparr> content = strip (fst wc),
       metadata = dict_set (dict_set (dict_set md ''chunk_number'' (PInt chunk_num))
                     ''start_char'' (PInt start)) ''end_char'' (PInt (snd wc)),
       chunk_id = py_str (dict_get md ''filename'' (PStr ''unknown'')) @ ''_'' @ str_int chunk_num \<rparr>"

text \<open>
  The \<open>while\<close> loop. It may run forever, so its model returns an option: \<open>None\<close> is a
  loop that never leaves.
\<close>

partial_function (option) chunk_loop ::
  "PDFProcessor \<Rightarrow> string \<Rightarrow> pydict \<Rightarrow> int \<Rightarrow> int \<Rightarrow> DocumentChunk list \<Rightarrow> DocumentChunk list option"
where
  "chunk_loop self text md start chunk_num chunks =
     (if start < int (length text) then
        chunk_loop self text md
          (snd (window_cut self text start) - chunk_overlap self)
          (chunk_num + 1)
          (chunks @ [make_chunk md chunk_num start (window_cut self text start)])
      else Some chunks)"

definition chunk_text :: "PDFProcessor \<Rightarrow> string \<Rightarrow> pydict \<Rightarrow> DocumentChunk list option" where
  "chunk_text self text md = chunk_loop self text md 0 0 []"

text \<open>Reading the offsets a chunk records in its metadata.\<close>

definition int_entry :: "pydict \<Rightarrow> string \<Rightarrow> int" where
  "int_entry d k = (case map_of d k of Some (PInt i) \<Rightarrow> i | Some (PStr s) \<Rightarrow> 0 | None \<Rightarrow> 0)"

definition start_char :: "DocumentChunk \<Rightarrow> int" where
  "start_char c = int_entry (metadata c) ''start_char''"

definition end_char :: "DocumentChunk \<Rightarrow> int" where
  "end_char c = int_entry (metadata c) ''end_char''"

section \<open>Shared data of the retrieval pipeline\<close>

text \<open>Any exception a collaborator raises, with its message.\<close>

datatype error = Exception string

text \<open>
  A passage as \<open>VectorStore.search\<close> returns it: a dict with the keys \<open>content\<close>,
  \<open>metadata\<close>, \<open>distance\<close> and \<open>id\<close>. The pipeline reads every key with \<open>get\<close> and a
  default, so each field is optional: \<open>None\<close> is an absent key.
\<close>

record kb_result =
  content_kb :: "string option"
  metadata_kb :: "pydict option"
  distance :: "real option"
  id_kb :: "string option"

text \<open>
  A search hit as a dict with the keys \<open>title\<close>, \<open>url\<close>, \<open>content\<close> and \<open>score\<close>, each
  possibly absent: the shape of the provider's result entries and of
  \<open>SearchResult.to_dict()\<close>.
\<close>

record hit_dict =
  title_opt :: "string option"
  url_opt :: "string option"
  content_opt :: "string option"
  score_opt :: "real option"

record SearchResult =
  title :: string
  url :: string
  content_sr :: string
  score :: real

definition to_dict :: "SearchResult \<Rightarrow> hit_dict" where
  "to_dict self =
     \<lparr> title_opt = Some (title self), url_opt = Some (url self),
       content_opt = Some (content_sr self), score_opt = Some (score self) \<rparr>"

text \<open>A chat message \<open>{"role": r, "content": c}\<close>.\<close>

type_synonym message = "(string \<times> string) list"

text \<open>
  The collaborators, each a function of the arguments the pipeline passes:
  \<open>VectorStore.search(query, k)\<close>; the provider's \<open>client.search\<close>, whose response
  holds a \<open>results\<close> list or lacks the key; the chat completion call, whole
  (\<open>response.choices[0].message.content\<close>) and streamed (the \<open>delta.content\<close> of each
  event, which may be \<open>None\<close>, and the exception that ended the stream, if any).
\<close>

record env =
  vector_store_search :: "string \<Rightarrow> int \<Rightarrow> error + kb_result list"
  tavily_client_search :: "string \<Rightarrow> int \<Rightarrow> error + hit_dict list option"
  chat_completions_create :: "message list \<Rightarrow> error + string"
  chat_completions_stream :: "message list \<Rightarrow> string option list \<times> error option"

text \<open>The calls made to the collaborators, in order.\<close>

datatype call =
    VectorStoreSearch string int
  | TavilySearch string int
  | ChatCompletion "message list" bool

text \<open>\<open>enumerate(xs, 1)\<close>.\<close>

definition enumerate1 :: "'a list \<Rightarrow> (int \<times> 'a) list" where
  "enumerate1 xs = zip (map (\<lambda>i. int i + 1) [0..<length xs]) xs"

text \<open>
  Rounding to the nearest integer, a tie going to the even one: the rounding rule of
  binary64 arithmetic and of \<open>round\<close>.
\<close>

definition round_half_even :: "real \<Rightarrow> int" where
  "round_half_even y =
     (let f = \<lfloor>y\<rfloor>; r = y - of_int f
      in if r < 1 / 2 then f else if 1 / 2 < r then f + 1
         else if even f then f else f + 1)"

text \<open>\<open>2 ^ k\<close> for an integer \<open>k\<close>, and the binary exponent \<open>e\<close> of a non-zero \<open>x\<close>:
  \<open>2 ^ e \<le> |x| < 2 ^ (e + 1)\<close>.\<close>

definition pow2 :: "int \<Rightarrow> real" where
  "pow2 k = (if 0 \<le> k then 2 ^ nat k else 1 / 2 ^ nat (- k))"

definition float_exponent :: "real \<Rightarrow> int" where
  "float_exponent x =
     (if 1 \<le> \<bar>x\<bar> then bitlen \<lfloor>\<bar>x\<bar>\<rfloor> - 1 else - bitlen (\<lceil>1 / \<bar>x\<bar>\<rceil> - 1))"

text \<open>
  The rounding of binary64: to the nearest number with a significand of 53 bits (below
  \<open>2 ^ -1022\<close>, to the nearest multiple of \<open>2 ^ -1074\<close>), a tie going to the even
  significand. Infinities, NaN and the sign of zero are not modelled: the sources
  compute with finite distances, thresholds and scores, and halving, subtracting from
  \<open>1.0\<close> and \<open>round\<close> keep a finite float below the largest one.
\<close>

definition float_round :: "real \<Rightarrow> real" where
  "float_round x =
     (let e = max (float_exponent x) (- 1022); ulp = pow2 (e - 52)
      in of_int (round_half_even (x / ulp)) * ulp)"

text \<open>The float operators \<open>x - y\<close> and \<open>x / y\<close> (for a divisor that is not zero).\<close>

definition float_sub :: "real \<Rightarrow> real \<Rightarrow> real" where
  "float_sub x y = float_round (x - y)"

definition float_div :: "real \<Rightarrow> real \<Rightarrow> real" where
  "float_div x y = float_round (x / y)"

text \<open>
  \<open>round(x, ndigits)\<close> on a float, for \<open>ndigits \<ge> 0\<close>: the exact value of \<open>x\<close> is rounded
  to the nearest multiple of \<open>10 ^ -ndigits\<close>, a tie going to the even one, and the
  result is the float nearest to that decimal number.
\<close>

definition py_round :: "real \<Rightarrow> nat \<Rightarrow> real" where
  "py_round x ndigits =
     float_round (of_int (round_half_even (x * 10 ^ ndigits)) / 10 ^ ndigits)"

section \<open>Web search and the search gate: \<open>app/services/web_search.py\<close>\<close>

record WebSearchService =
  max_results :: int

text \<open>
  \<open>search\<close>: the \<open>try\<close> block holds the provider call and the conversion of its
  results; \<open>except Exception\<close> turns any failure into the empty list.
\<close>

definition search ::
  "env \<Rightarrow> WebSearchService \<Rightarrow> string \<Rightarrow> int option \<Rightarrow> SearchResult list \<times> call list" where
  "search e self query max_results_arg =
     (let max_results' = (case max_results_arg of
                            None \<Rightarrow> max_results self
                          | Some m \<Rightarrow> if m = 0 then max_results self else m)
      in (case tavily_client_search e query max_results' of
            Inl err \<Rightarrow> []
          | Inr response \<Rightarrow>
              (case response of
                 None \<Rightarrow> []
               | Some results \<Rightarrow>
                   foldl (\<lambda>search_results result. search_results @
                            [\<lparr> title = dict_default (title_opt result) ''No title'',
                               url = dict_default (url_opt result) [],
                               content_sr = dict_default (content_opt result) [],
                               score = dict_default (score_opt result) 0 \<rparr>])
                         [] results),
          [TavilySearch query max_results']))"

definition should_use_search :: "kb_result list \<Rightarrow> real \<Rightarrow> bool" where
  "should_use_search knowledge_base_results confidence_threshold =
     (case knowledge_base_results of
        [] \<Rightarrow> True
      | top_result # _ \<Rightarrow>
          (let top_result_distance = dict_default (distance top_result) 1;
               confidence = float_sub 1 (float_div top_result_distance 2)
           in confidence < confidence_threshold))"

definition format_search_results_for_context :: "SearchResult list \<Rightarrow> string" where
  "format_search_results_for_context results =
     (if results = [] then []
      else join ''\<newline>''
             (foldl (\<lambda>context_parts (i, result). context_parts @
                       [str_int i @ ''. '' @ title result,
                        ''   Source: '' @ url result,
                        ''   '' @ content_sr result @ ''\<newline>''])
                    [''Web Search Results:\<newline>''] (enumerate1 results)))"

section \<open>Prompt construction and generation: \<open>app/core/llm_client.py\<close>\<close>

definition system_message :: string where
  "system_message =
     ''You are a helpful AI assistant for a product support chatbot. Your role is to answer user questions accurately using the provided context from product documentation and web search results.\<newline>\<newline>Guidelines:\<newline>- Always prioritize information from the Internal Knowledge Base (product documentation)\<newline>- Use web search results to supplement or provide additional context when needed\<newline>- If the answer is not in the provided context, clearly state that you don't have that information\<newline>- Be concise but comprehensive in your answers\<newline>- If referencing specific sources, mention them\<newline>- Maintain a professional and friendly tone''"

definition create_prompt :: "string \<Rightarrow> kb_result list \<Rightarrow> string option \<Rightarrow> message list" where
  "create_prompt query knowledge_base_context search_results_context =
     (let kb_context_parts =
            (if knowledge_base_context \<noteq> [] then
               foldl (\<lambda>parts (i, doc). parts @
                        [''[Source '' @ str_int i @ '': ''
                           @ py_str (dict_get (dict_default (metadata_kb doc) []) ''filename'' (PStr ''Unknown''))
                           @ '', Page ''
                           @ py_str (dict_get (dict_default (metadata_kb doc) []) ''page_number'' (PStr ''N/A''))
                           @ '']'',
                         dict_default (content_kb doc) [],
                         []])
                     [''Internal Knowledge Base:\<newline>''] (enumerate1 knowledge_base_context)
             else []);
          kb_context =
            (if kb_context_parts \<noteq> [] then join ''\<newline>'' kb_context_parts
             else ''No relevant internal documentation found.'');
          user_content_parts =
            [kb_context, []]
            @ (case search_results_context of
                 None \<Rightarrow> []
               | Some c \<Rightarrow> if c = [] then [] else [c, []])
            @ [''User Question: '' @ query,
               ''\<newline>Please provide a helpful answer based on the context above:'']
      in [[(''role'', ''system''), (''content'', system_message)],
          [(''role'', ''user''), (''content'', join ''\<newline>'' user_content_parts)]])"

text \<open>
  Both generation methods build the messages with \<open>create_prompt\<close> and pass them to the
  chat completion call, with the client's fixed model, temperature and token limit;
  the streaming one sets \<open>stream=True\<close> and yields every \<open>delta.content\<close> that is not
  \<open>None\<close>. An exception of the call is logged and raised again.
\<close>

definition generate_response ::
  "env \<Rightarrow> string \<Rightarrow> kb_result list \<Rightarrow> string option \<Rightarrow> (error + string) \<times> call list" where
  "generate_response e query knowledge_base_context search_results_context =
     (let messages = create_prompt query knowledge_base_context search_results_context
      in (chat_completions_create e messages, [ChatCompletion messages False]))"

definition generate_response_stream ::
  "env \<Rightarrow> string \<Rightarrow> kb_result list \<Rightarrow> string option \<Rightarrow> (string list \<times> error option) \<times> call list" where
  "generate_response_stream e query knowledge_base_context search_results_context =
     (let messages = create_prompt query knowledge_base_context search_results_context;
          stream = chat_completions_stream e messages
      in ((List.map_filter (\<lambda>c. c) (fst stream), snd stream), [ChatCompletion messages True]))"

section \<open>The pipeline: \<open>app/core/rag_pipeline.py\<close>\<close>

text \<open>
  An entry of the source list: the dict with \<open>type\<close> \<open>knowledge_base\<close> (filename, page
  number, chunk number, relevance score) or \<open>web_search\<close> (title, url, relevance score).
\<close>

datatype Source =
    KnowledgeBaseSource pyval pyval pyval real
  | WebSearchSource string string real

fun source_type :: "Source \<Rightarrow> string" where
  "source_type (KnowledgeBaseSource f p c r) = ''knowledge_base''"
| "source_type (WebSearchSource t u r) = ''web_search''"

fun relevance_score :: "Source \<Rightarrow> real" where
  "relevance_score (KnowledgeBaseSource f p c r) = r"
| "relevance_score (WebSearchSource t u r) = r"

record RAGResponse =
  answer :: string
  sources :: "Source list"
  confidence :: real
  used_web_search :: bool

record RAGPipeline =
  web_search :: WebSearchService

definition calculate_confidence :: "kb_result list \<Rightarrow> real" where
  "calculate_confidence kb_results =
     (case kb_results of
        [] \<Rightarrow> 0
      | top_result # _ \<Rightarrow>
          (let top_distance = dict_default (distance top_result) 2;
               confidence' = max 0 (min 1 (float_sub 1 (float_div top_distance 2)))
           in py_round confidence' 2))"

definition format_sources :: "kb_result list \<Rightarrow> hit_dict list \<Rightarrow> Source list" where
  "format_sources kb_results search_sources =
     (let sources1 =
            foldl (\<lambda>srcs result. srcs @
                     [KnowledgeBaseSource
                        (dict_get (dict_default (metadata_kb result) []) ''filename'' (PStr ''Unknown''))
                        (dict_get (dict_default (metadata_kb result) []) ''page_number'' (PStr ''N/A''))
                        (dict_get (dict_default (metadata_kb result) []) ''chunk_number'' (PStr ''N/A''))
                        (py_round (float_sub 1 (float_div (dict_default (distance result) 1) 2)) 2)])
                  [] (py_slice kb_results 0 3)
      in foldl (\<lambda>srcs search_source. srcs @
                  [WebSearchSource
                     (dict_default (title_opt search_source) ''No title'')
                     (dict_default (url_opt search_source) [])
                     (dict_default (score_opt search_source) 0)])
               sources1 (py_slice search_sources 0 3))"

text \<open>
  \<open>query\<close>: an exception of the retrieval or of the generation ends the request
  (\<open>Inl\<close>); \<open>search\<close> cannot raise.
\<close>

definition query ::
  "env \<Rightarrow> RAGPipeline \<Rightarrow> string \<Rightarrow> bool \<Rightarrow> int \<Rightarrow> real \<Rightarrow> (error + RAGResponse) \<times> call list" where
  "query e self user_query use_search num_results search_confidence_threshold =
     (case vector_store_search e user_query num_results of
        Inl err \<Rightarrow> (Inl err, [VectorStoreSearch user_query num_results])
      | Inr kb_results \<Rightarrow>
          (let searched =
                 (if use_search \<and> should_use_search kb_results search_confidence_threshold
                  then search e (web_search self) user_query None else ([], []));
               search_results = fst searched;
               gate_and_found =
                 (use_search \<and> should_use_search kb_results search_confidence_threshold
                  \<and> search_results \<noteq> []);
               used_search = gate_and_found;
               search_context =
                 (if gate_and_found then Some (format_search_results_for_context search_results)
                  else None);
               search_sources = (if gate_and_found then map to_dict search_results else []);
               generated = generate_response e user_query kb_results search_context;
               calls = [VectorStoreSearch user_query num_results] @ snd searched @ snd generated
           in (case fst generated of
                 Inl err \<Rightarrow> (Inl err, calls)
               | Inr answer' \<Rightarrow>
                   (Inr \<lparr> answer = answer',
                          sources = format_sources kb_results search_sources,
                          confidence = calculate_confidence kb_results,
                          used_web_search = used_search \<rparr>,
                    calls))))"

text \<open>
  \<open>query_stream\<close>: the fragments yielded to the caller and the exception that ended
  the generator, if any.
\<close>

definition query_stream ::
  "env \<Rightarrow> RAGPipeline \<Rightarrow> string \<Rightarrow> bool \<Rightarrow> int \<Rightarrow> real \<Rightarrow> (string list \<times> error option) \<times> call list" where
  "query_stream e self user_query use_search num_results search_confidence_threshold =
     (case vector_store_search e user_query num_results of
        Inl err \<Rightarrow> (([], Some err), [VectorStoreSearch user_query num_results])
      | Inr kb_results \<Rightarrow>
          (let searched =
                 (if use_search \<and> should_use_search kb_results search_confidence_threshold
                  then search e (web_search self) user_query None else ([], []));
               search_results = fst searched;
               search_context =
                 (if use_search \<and> should_use_search kb_results search_confidence_threshold
                     \<and> search_results \<noteq> []
                  then Some (format_search_results_for_context search_results)
                  else None);
               generated = generate_response_stream e user_query kb_results search_context
           in (fst generated,
               [VectorStoreSearch user_query num_results] @ snd searched @ snd generated)))"

text \<open>
  Reading the list of calls: the messages of a generation call, and a call without its
  \<open>stream\<close> flag.
\<close>

fun prompt_of :: "call \<Rightarrow> message list option" where
  "prompt_of (ChatCompletion messages stream) = Some messages"
| "prompt_of (VectorStoreSearch q k) = None"
| "prompt_of (TavilySearch q m) = None"

fun without_stream_flag :: "call \<Rightarrow> call" where
  "without_stream_flag (ChatCompletion messages stream) = ChatCompletion messages False"
| "without_stream_flag (VectorStoreSearch q k) = VectorStoreSearch q k"
| "without_stream_flag (TavilySearch q m) = TavilySearch q m"

section \<open>Facts about the Python primitives\<close>

lemma rfind_bounds: "- 1 \<le> rfind s c \<and> rfind s c < int (length s)"
  by (induction s) (auto simp: Let_def)

lemma rfind_hit: "0 \<le> rfind s c \<Longrightarrow> s ! nat (rfind s c) = c"
proof (induction s)
  case Nil
  then show ?case by simp
next
  case (Cons x xs)
  show ?case
  proof (cases "0 \<le> rfind xs c")
    case True
    then have "nat (rfind xs c + 1) = Suc (nat (rfind xs c))" by simp
    with True Cons.IH show ?thesis by (simp add: Let_def)
  next
    case False
    with Cons.prems show ?thesis by (simp add: Let_def split: if_splits)
  qed
qed

lemma rfind_after: "rfind s c < int j \<Longrightarrow> j < length s \<Longrightarrow> s ! j \<noteq> c"
proof (induction s arbitrary: j)
  case Nil
  then show ?case by simp
next
  case (Cons x xs)
  show ?case
  proof (cases j)
    case 0
    with Cons.prems show ?thesis by (simp add: Let_def split: if_splits)
  next
    case (Suc k)
    with Cons.prems have "rfind xs c < int k" "k < length xs"
      by (auto simp: Let_def split: if_splits)
    with Cons.IH Suc show ?thesis by simp
  qed
qed

lemma py_index_range: "0 \<le> n \<Longrightarrow> 0 \<le> py_index n i \<and> py_index n i \<le> n"
  by (simp add: py_index_def)

lemma length_py_slice:
  "length (py_slice xs a b) =
     nat (py_index (int (length xs)) b - py_index (int (length xs)) a)"
proof -
  let ?n = "int (length xs)"
  have "0 \<le> py_index ?n a" "py_index ?n a \<le> ?n" "py_index ?n b \<le> ?n"
    using py_index_range[of ?n] by simp_all
  then show ?thesis
    unfolding py_slice_def Let_def by simp
qed

lemma py_slice_nonneg:
  "0 \<le> a \<Longrightarrow> 0 \<le> b \<Longrightarrow> py_slice xs a b = take (nat (b - a)) (drop (nat a) xs)"
proof -
  assume a: "0 \<le> a" and b: "0 \<le> b"
  show ?thesis
  proof (cases "a < int (length xs)")
    case True
    with a b have "take (nat (min b (int (length xs)) - a)) (drop (nat a) xs)
        = take (nat (b - a)) (drop (nat a) xs)"
      by (cases "b \<le> int (length xs)") (simp_all add: min_def)
    with True a b show ?thesis by (simp add: py_slice_def py_index_def Let_def min_def)
  next
    case False
    with a b show ?thesis by (simp add: py_slice_def py_index_def Let_def min_def)
  qed
qed

lemma py_slice_whole: "int (length xs) \<le> b \<Longrightarrow> py_slice xs 0 b = xs"
  by (simp add: py_slice_def py_index_def Let_def)

lemma py_slice_prefix: "0 \<le> k \<Longrightarrow> py_slice xs 0 k = take (nat k) xs"
  by (simp add: py_slice_nonneg)

text \<open>A prefix of a slice that starts at a non-negative offset is again a slice.\<close>

lemma py_slice_slice_prefix:
  assumes "0 \<le> a" and "0 \<le> k" and "k \<le> int (length (py_slice xs a b))"
  shows "py_slice (py_slice xs a b) 0 k = py_slice xs a (a + k)"
proof (cases "a < int (length xs)")
  case True
  let ?n = "int (length xs)"
  from True assms(1) have lo: "py_index ?n a = a" by (simp add: py_index_def)
  have "py_index ?n b \<le> ?n" using py_index_range[of ?n b] by simp
  with assms(3) lo True have k: "k \<le> ?n - a"
    by (simp add: length_py_slice split: if_splits)
  have "py_slice (py_slice xs a b) 0 k = take (nat k) (py_slice xs a b)"
    using assms(2) by (rule py_slice_prefix)
  also have "\<dots> = take (nat k) (drop (nat a) xs)"
  proof -
    from assms(3) have "nat k \<le> nat (py_index ?n b - py_index ?n a)"
      by (simp add: length_py_slice split: if_splits)
    then show ?thesis
      unfolding py_slice_def Let_def by (simp add: lo min_def)
  qed
  also have "\<dots> = py_slice xs a (a + k)"
    using assms(1,2) by (simp add: py_slice_nonneg)
  finally show ?thesis .
next
  case False
  with assms(1) have "py_slice xs a b = []" "py_slice xs a (a + k) = []"
    by (simp_all add: py_slice_def py_index_def Let_def)
  then show ?thesis by (simp add: py_slice_def)
qed

section \<open>The loop of \<open>chunk_text\<close>\<close>

lemma chunk_loop_stop:
  "\<not> start < int (length text) \<Longrightarrow> chunk_loop self text md start chunk_num chunks = Some chunks"
  by (subst chunk_loop.simps) simp

lemma chunk_loop_step:
  "start < int (length text) \<Longrightarrow>
   chunk_loop self text md start chunk_num chunks =
   chunk_loop self text md (snd (window_cut self text start) - chunk_overlap self) (chunk_num + 1)
     (chunks @ [make_chunk md chunk_num start (window_cut self text start)])"
  by (subst chunk_loop.simps) simp

text \<open>
  An invariant of the loop holds of the returned list: the rule for reasoning about a
  run that returns.
\<close>

lemma chunk_loop_rule:
  assumes run: "chunk_loop self text md start chunk_num chunks = Some r"
    and init: "I start chunk_num chunks"
    and step: "\<And>s n cs. I s n cs \<Longrightarrow> s < int (length text) \<Longrightarrow>
        I (snd (window_cut self text s) - chunk_overlap self) (n + 1)
          (cs @ [make_chunk md n s (window_cut self text s)])"
  shows "\<exists>s n. I s n r \<and> \<not> s < int (length text)"
proof -
  let ?P = "\<lambda>self' text' md' s n cs y.
      self' = self \<and> text' = text \<and> md' = md \<and> I s n cs \<longrightarrow>
      (\<exists>s n. I s n y \<and> \<not> s < int (length text))"
  have "?P self text md start chunk_num chunks r"
  proof (rule chunk_loop.raw_induct[where P = ?P, OF _ run], intro impI, elim conjE)
    fix f self' text' md' s n cs y
    assume IH: "\<And>text md start chunk_num chunks b y.
        f text md start chunk_num chunks b = Some y \<Longrightarrow> ?P text md start chunk_num chunks b y"
      and body: "(if s < int (length text') then
         f self' text' md' (snd (window_cut self' text' s) - chunk_overlap self') (n + 1)
           (cs @ [make_chunk md' n s (window_cut self' text' s)])
         else Some cs) = Some y"
      and eqs: "self' = self" "text' = text" "md' = md" and inv: "I s n cs"
    show "\<exists>s n. I s n y \<and> \<not> s < int (length text)"
    proof (cases "s < int (length text)")
      case True
      with body eqs have "f self text md (snd (window_cut self text s) - chunk_overlap self) (n + 1)
           (cs @ [make_chunk md n s (window_cut self text s)]) = Some y" by simp
      from IH[OF this] step[OF inv True] show ?thesis by blast
    next
      case False
      with body eqs inv show ?thesis by auto
    qed
  qed
  with init show ?thesis by blast
qed

text \<open>The loop returns when every pass moves \<open>start\<close> forward.\<close>

lemma chunk_loop_terminates:
  assumes prog: "\<And>s. I s \<Longrightarrow> s < int (length text) \<Longrightarrow>
       I (snd (window_cut self text s) - chunk_overlap self) \<and>
       s < snd (window_cut self text s) - chunk_overlap self"
  shows "I start \<Longrightarrow> \<exists>r. chunk_loop self text md start chunk_num chunks = Some r"
proof (induction "nat (int (length text) - start)" arbitrary: start chunk_num chunks rule: less_induct)
  case less
  show ?case
  proof (cases "start < int (length text)")
    case True
    let ?s = "snd (window_cut self text start) - chunk_overlap self"
    from prog[OF less.prems True] have I: "I ?s" and lt: "start < ?s" by auto
    from lt True have "nat (int (length text) - ?s) < nat (int (length text) - start)" by linarith
    from less.hyps[OF this I] show ?thesis by (simp add: chunk_loop_step[OF True])
  next
    case False
    then show ?thesis by (simp add: chunk_loop_stop)
  qed
qed

text \<open>The chunks already collected stay at the front of the result.\<close>

lemma chunk_loop_prefix:
  assumes "chunk_loop self text md start chunk_num chunks = Some r"
  shows "\<exists>more. r = chunks @ more"
proof -
  have init: "\<exists>more. chunks = chunks @ more" by simp
  have step: "\<exists>more. cs @ [make_chunk md n s (window_cut self text s)] = chunks @ more"
    if "\<exists>more. cs = chunks @ more" for s n cs
    using that by auto
  from chunk_loop_rule[where I = "\<lambda>s n cs. \<exists>more. cs = chunks @ more", OF assms init step]
  show ?thesis by blast
qed

section \<open>One window\<close>

lemma window_cut_last:
  "\<not> start + chunk_size self < int (length text) \<Longrightarrow>
   window_cut self text start = (py_slice text start (start + chunk_size self), start + chunk_size self)"
  by (simp add: window_cut_def Let_def)

lemma window_cut_inner:
  "start + chunk_size self < int (length text) \<Longrightarrow>
   window_cut self text start =
     (let w = py_slice text start (start + chunk_size self);
          bp = max (rfind w CHR ''.'') (rfind w CHR 0x0A)
      in if chunk_size self < 2 * bp then (py_slice w 0 (bp + 1), start + bp + 1)
         else (w, start + chunk_size self))"
  by (simp add: window_cut_def Let_def)

lemma break_point_bounds:
  "- 1 \<le> max (rfind w c) (rfind w d) \<and> max (rfind w c) (rfind w d) < int (length w)"
  using rfind_bounds[of w c] rfind_bounds[of w d] by (simp add: max_def)

text \<open>The end of a chunk: the raw edge, or one past a break point beyond the half.\<close>

lemma snd_window_cut:
  "snd (window_cut self text start) = start + chunk_size self \<or>
   (\<exists>bp. snd (window_cut self text start) = start + bp + 1 \<and> chunk_size self < 2 * bp \<and>
      bp < int (length (py_slice text start (start + chunk_size self))) \<and>
      start + chunk_size self < int (length text))"
proof (cases "start + chunk_size self < int (length text)")
  case True
  let ?w = "py_slice text start (start + chunk_size self)"
  let ?bp = "max (rfind ?w CHR ''.'') (rfind ?w CHR 0x0A)"
  show ?thesis
  proof (cases "chunk_size self < 2 * ?bp")
    case t: True
    with True have "snd (window_cut self text start) = start + ?bp + 1"
      by (simp add: window_cut_inner Let_def)
    with t True break_point_bounds[of ?w "CHR ''.''" "CHR 0x0A"] show ?thesis by blast
  next
    case False
    with True show ?thesis by (simp add: window_cut_inner Let_def)
  qed
next
  case False
  then show ?thesis by (simp add: window_cut_last)
qed

text \<open>
  A window that starts before the text (a negative \<open>start\<close>) and ends inside it is
  never trimmed: its Python slice is too short to hold a break point beyond the half.
\<close>

lemma window_cut_negative_start:
  assumes neg: "start < 0" and pos: "0 \<le> start + chunk_size self"
  shows "window_cut self text start =
     (py_slice text start (start + chunk_size self), start + chunk_size self)"
proof (cases "start + chunk_size self < int (length text)")
  case True
  let ?n = "int (length text)"
  let ?w = "py_slice text start (start + chunk_size self)"
  let ?bp = "max (rfind ?w CHR ''.'') (rfind ?w CHR 0x0A)"
  have len: "int (length ?w) = max 0 (start + chunk_size self - max (start + ?n) 0)"
    using neg pos True by (simp add: length_py_slice py_index_def)
  have bp: "?bp < int (length ?w)" "- 1 \<le> ?bp"
    using break_point_bounds[of ?w "CHR ''.''" "CHR 0x0A"] by simp_all
  have "\<not> chunk_size self < 2 * ?bp"
    using len bp neg pos True by (simp add: max_def split: if_splits)
  with True show ?thesis by (simp add: window_cut_inner Let_def)
next
  case False
  then show ?thesis by (rule window_cut_last)
qed

text \<open>The text of a chunk is the Python slice between its recorded offsets.\<close>

lemma window_cut_is_slice_nonneg:
  assumes nonneg: "0 \<le> start"
  shows "fst (window_cut self text start) = py_slice text start (snd (window_cut self text start))"
proof (cases "start + chunk_size self < int (length text)")
  case True
  let ?w = "py_slice text start (start + chunk_size self)"
  let ?bp = "max (rfind ?w CHR ''.'') (rfind ?w CHR 0x0A)"
  show ?thesis
  proof (cases "chunk_size self < 2 * ?bp")
    case t: True
    have bp1: "- 1 \<le> ?bp" and bp2: "?bp < int (length ?w)"
      using break_point_bounds[of ?w "CHR ''.''" "CHR 0x0A"] by blast+
    from bp1 have "0 \<le> ?bp + 1" by linarith
    moreover from bp2 have "?bp + 1 \<le> int (length ?w)" by (rule zless_imp_add1_zle)
    ultimately have "py_slice ?w 0 (?bp + 1) = py_slice text start (start + (?bp + 1))"
      by (rule py_slice_slice_prefix[OF nonneg])
    with t True show ?thesis by (simp add: window_cut_inner Let_def add.assoc)
  next
    case False
    with True show ?thesis by (simp add: window_cut_inner Let_def)
  qed
next
  case False
  then show ?thesis by (simp add: window_cut_last)
qed

lemma window_cut_is_slice:
  assumes "- chunk_size self \<le> start"
  shows "fst (window_cut self text start) = py_slice text start (snd (window_cut self text start))"
proof (cases "start < 0")
  case True
  with assms show ?thesis by (simp add: window_cut_negative_start)
next
  case False
  then show ?thesis by (simp add: window_cut_is_slice_nonneg)
qed

section \<open>The chunks of a run\<close>

lemma metadata_make_chunk:
  "map_of (metadata (make_chunk md n s wc)) ''chunk_number'' = Some (PInt n)"
  "map_of (metadata (make_chunk md n s wc)) ''start_char'' = Some (PInt s)"
  "map_of (metadata (make_chunk md n s wc)) ''end_char'' = Some (PInt (snd wc))"
  by (simp_all add: make_chunk_def dict_set_def update_conv')

lemma content_make_chunk: "content (make_chunk md n s wc) = strip (fst wc)"
  by (simp add: make_chunk_def)

section \<open>Forward progress of the sliding window\<close>

text \<open>
  Claim C8: for every text and every configuration with \<open>0 < chunk_overlap < chunk_size\<close>
  the loop of \<open>chunk_text\<close> moves forward and returns. The code does not: with
  \<open>chunk_size = 5\<close> and \<open>chunk_overlap = 4\<close> the first window of \<open>aaa.aaa\<close> is cut after
  the period at index 3, so \<open>end = 4\<close> and the next \<open>start\<close> is \<open>4 - 4 = 0\<close> again: the
  loop never leaves (and appends a chunk on every pass).
\<close>

theorem chunk_text_loops_forever:
  "chunk_text \<lparr>chunk_size = 5, chunk_overlap = 4\<rparr> ''aaa.aaa'' [(''filename'', PStr ''doc.pdf'')] = None"
proof -
  let ?self = "\<lparr>chunk_size = 5, chunk_overlap = 4\<rparr>"
  let ?md = "[(''filename'', PStr ''doc.pdf'')]"
  have again: "snd (window_cut ?self ''aaa.aaa'' 0) - chunk_overlap ?self = 0"
    by (simp add: window_cut_def py_slice_def py_index_def Let_def)
  have "chunk_loop ?self ''aaa.aaa'' ?md 0 0 [] \<noteq> Some r" for r
  proof
    assume run: "chunk_loop ?self ''aaa.aaa'' ?md 0 0 [] = Some r"
    have step: "snd (window_cut ?self ''aaa.aaa'' s) - chunk_overlap ?self = 0"
      if "s = 0" for s :: int and n :: int and cs :: "DocumentChunk list"
      using that again by simp
    from chunk_loop_rule[where I = "\<lambda>s n cs. s = 0", OF run refl step]
    show False by simp
  qed
  then show ?thesis by (cases "chunk_text ?self ''aaa.aaa'' ?md") (auto simp: chunk_text_def)
qed

text \<open>
  Claim C7: the chunks are ordered by \<open>start_char\<close>, each with \<open>end_char > start_char\<close>,
  consecutive ones overlap by \<open>chunk_overlap\<close>, and their ranges cover the text. With
  \<open>chunk_size = 10\<close> and \<open>chunk_overlap = 8\<close> the code cuts the first window of
  \<open>aaaaaa.aaaa\<close> after the period, at \<open>end = 7\<close>, and starts the second chunk at
  \<open>7 - 8 = -1\<close>: the offsets go backwards, the second chunk has a negative
  \<open>start_char\<close>, and its text is the empty Python slice \<open>text[-1:9]\<close>.
\<close>

theorem chunk_text_start_goes_back:
  "map_option (map (\<lambda>c. (map_of (metadata c) ''start_char'', map_of (metadata c) ''end_char'', content c)))
     (chunk_text \<lparr>chunk_size = 10, chunk_overlap = 8\<rparr> ''aaaaaa.aaaa'' [])
   = Some [(Some (PInt 0), Some (PInt 7), ''aaaaaa.''),
           (Some (PInt (- 1)), Some (PInt 9), []),
           (Some (PInt 1), Some (PInt 11), ''aaaaa.aaaa''),
           (Some (PInt 3), Some (PInt 13), ''aaa.aaaa''),
           (Some (PInt 5), Some (PInt 15), ''a.aaaa''),
           (Some (PInt 7), Some (PInt 17), ''aaaa''),
           (Some (PInt 9), Some (PInt 19), ''aa'')]"
  by (simp add: chunk_text_def chunk_loop_step chunk_loop_stop window_cut_def py_slice_def
        py_index_def Let_def metadata_make_chunk content_make_chunk strip_def isspace_def)

section \<open>Windows of degenerate configurations\<close>

lemma py_slice_empty: "py_slice xs a a = []"
  by (simp add: py_slice_def)

lemma py_index_step: "0 \<le> k \<Longrightarrow> 0 \<le> n \<Longrightarrow> py_index n (a + k) - py_index n a \<le> k"
  by (simp add: py_index_def max_def min_def)

lemma length_py_slice_le:
  assumes "0 \<le> k"
  shows "int (length (py_slice xs a (a + k))) \<le> k"
  using assms py_index_step[of k "int (length xs)" a] by (simp add: length_py_slice)

text \<open>With a \<open>chunk_size\<close> that is not positive, a window with a negative start is empty.\<close>

lemma window_empty_nonpos_size:
  assumes "chunk_size self \<le> 0" and "start < 0"
  shows "py_slice text start (start + chunk_size self) = []"
proof -
  have "length (py_slice text start (start + chunk_size self)) = 0"
    using assms by (simp add: length_py_slice py_index_def)
  then show ?thesis by simp
qed

lemma window_cut_is_slice_nonpos_size:
  assumes size: "chunk_size self \<le> 0"
  shows "fst (window_cut self text start) = py_slice text start (snd (window_cut self text start))"
proof (cases "start < 0")
  case True
  have w: "py_slice text start (start + chunk_size self) = []"
    using size True by (rule window_empty_nonpos_size)
  show ?thesis
  proof (cases "start + chunk_size self < int (length text)")
    case inner: True
    then show ?thesis
      by (simp add: window_cut_inner w Let_def py_slice_empty)
  next
    case False
    then show ?thesis by (simp add: window_cut_last)
  qed
next
  case False
  then show ?thesis by (simp add: window_cut_is_slice_nonneg)
qed

text \<open>
  With \<open>chunk_overlap\<close> at least \<open>chunk_size\<close> the loop never moves past offset \<open>0\<close>.
\<close>

lemma next_start_nonpos:
  assumes size: "0 < chunk_size self" and ov: "chunk_size self \<le> chunk_overlap self"
    and s: "s \<le> 0"
  shows "snd (window_cut self text s) - chunk_overlap self \<le> 0"
proof -
  from snd_window_cut[of self "text" s] show ?thesis
  proof
    assume "snd (window_cut self text s) = s + chunk_size self"
    with ov s show ?thesis by simp
  next
    assume "\<exists>bp. snd (window_cut self text s) = s + bp + 1 \<and> chunk_size self < 2 * bp \<and>
      bp < int (length (py_slice text s (s + chunk_size self))) \<and>
      s + chunk_size self < int (length text)"
    then obtain bp where bp: "snd (window_cut self text s) = s + bp + 1"
      "bp < int (length (py_slice text s (s + chunk_size self)))" by blast
    from size have "int (length (py_slice text s (s + chunk_size self))) \<le> chunk_size self"
      by (intro length_py_slice_le) simp
    with bp ov s show ?thesis by simp
  qed
qed

lemma chunk_loop_stuck:
  assumes size: "0 < chunk_size self" and ov: "chunk_size self \<le> chunk_overlap self"
    and ne: "text \<noteq> []"
  shows "chunk_loop self text md 0 chunk_num chunks = None"
proof -
  have "chunk_loop self text md 0 chunk_num chunks \<noteq> Some r" for r
  proof
    assume run: "chunk_loop self text md 0 chunk_num chunks = Some r"
    have "\<exists>s (n::int). s \<le> 0 \<and> \<not> s < int (length text)"
    proof (rule chunk_loop_rule[where I = "\<lambda>s n cs. s \<le> 0", OF run])
      show "(0::int) \<le> 0" by simp
    next
      fix s :: int
      assume "s \<le> 0"
      then show "snd (window_cut self text s) - chunk_overlap self \<le> 0"
        by (rule next_start_nonpos[OF size ov])
    qed
    moreover from ne have "0 < int (length text)" by simp
    ultimately show False by (elim exE conjE) linarith
  qed
  then show ?thesis by (cases "chunk_loop self text md 0 chunk_num chunks") auto
qed

section \<open>Short texts\<close>

lemma window_cut_short:
  assumes "int (length text) < chunk_size self" and "0 \<le> s"
  shows "snd (window_cut self text s) = s + chunk_size self"
  using assms by (simp add: window_cut_last)

lemma window_cut_short_first:
  assumes "int (length text) < chunk_size self"
  shows "window_cut self text 0 = (text, chunk_size self)"
  using assms by (simp add: window_cut_last py_slice_whole)

text \<open>
  Claim C1 as the specification states it fails: a text of 9 characters is shorter than
  \<open>chunk_size = 10\<close>, and with \<open>chunk_overlap = 2\<close> the code returns two chunks, the
  second one the window that starts at offset 8.
\<close>

theorem chunk_text_short_text_two_chunks:
  "0 < length ''abcdefghi'' \<and>
   int (length ''abcdefghi'') < chunk_size \<lparr>chunk_size = 10, chunk_overlap = 2\<rparr> \<and>
   map_option (map content) (chunk_text \<lparr>chunk_size = 10, chunk_overlap = 2\<rparr> ''abcdefghi'' [])
     = Some [''abcdefghi'', ''i'']"
  by (simp add: chunk_text_def chunk_loop_step chunk_loop_stop window_cut_def py_slice_def
        py_index_def Let_def content_make_chunk strip_def isspace_def)

section \<open>The boundary trim\<close>

lemma rfind_le_last:
  assumes "\<forall>j. i < j \<and> j < length w \<longrightarrow> w ! j \<noteq> c"
  shows "rfind w c \<le> int i"
proof (rule ccontr)
  assume "\<not> rfind w c \<le> int i"
  then have gt: "int i < rfind w c" by simp
  then have "0 \<le> rfind w c" by simp
  then have hit: "w ! nat (rfind w c) = c" by (rule rfind_hit)
  from gt rfind_bounds[of w c] have "i < nat (rfind w c)" "nat (rfind w c) < length w" by simp_all
  with assms hit show False by blast
qed

lemma rfind_ge_hit:
  assumes "i < length w" and "w ! i = c"
  shows "int i \<le> rfind w c"
  using assms rfind_after[of w c i] by force

lemma break_point_last:
  assumes i: "i < length w" and b: "w ! i = c \<or> w ! i = d"
    and last: "\<forall>j. i < j \<and> j < length w \<longrightarrow> w ! j \<noteq> c \<and> w ! j \<noteq> d"
  shows "max (rfind w c) (rfind w d) = int i"
proof -
  from last have "rfind w c \<le> int i" "rfind w d \<le> int i"
    by (auto intro: rfind_le_last)
  moreover from i b have "int i \<le> rfind w c \<or> int i \<le> rfind w d"
    by (auto dest: rfind_ge_hit)
  ultimately show ?thesis by (auto simp: max_def)
qed

lemma break_point_none:
  assumes "\<forall>i<length w. w ! i \<noteq> c \<and> w ! i \<noteq> d"
  shows "max (rfind w c) (rfind w d) = - 1"
proof -
  have "rfind w x = - 1" if "\<forall>i<length w. w ! i \<noteq> x" for x
  proof (rule ccontr)
    assume "rfind w x \<noteq> - 1"
    with rfind_bounds[of w x] have ge: "0 \<le> rfind w x" by simp
    from rfind_hit[OF ge] rfind_bounds[of w x] ge that show False
      by (metis nat_less_iff)
  qed
  with assms show ?thesis by simp
qed

text \<open>
  Claim C2, as the code has it. For a window that is not the last, with \<open>w\<close> the
  window's text: when \<open>i\<close> is the index in \<open>w\<close> of the last period or newline, the chunk
  is cut just after that character (it ends at offset \<open>start + i + 1\<close> and its text is
  the first \<open>i + 1\<close> characters of \<open>w\<close>) exactly when \<open>i\<close> is strictly beyond the half,
  \<open>chunk_size < 2 * i\<close>; a boundary at the half itself, or before it, leaves the raw
  window, and so does a window without a boundary. The window's index \<open>i\<close> is the
  text's offset \<open>start + i\<close>.
\<close>

theorem window_cut_boundary:
  assumes inner: "start + chunk_size self < int (length text)"
    and size: "0 < chunk_size self"
    and w: "w = py_slice text start (start + chunk_size self)"
  shows "(i < length w \<and> (w ! i = CHR ''.'' \<or> w ! i = CHR 0x0A) \<and>
          (\<forall>j. i < j \<and> j < length w \<longrightarrow> w ! j \<noteq> CHR ''.'' \<and> w ! j \<noteq> CHR 0x0A) \<longrightarrow>
            window_cut self text start =
              (if chunk_size self < 2 * int i then (take (Suc i) w, start + int i + 1)
               else (w, start + chunk_size self)) \<and>
            (0 \<le> start \<longrightarrow> w ! i = text ! (nat start + i))) \<and>
         ((\<forall>i<length w. w ! i \<noteq> CHR ''.'' \<and> w ! i \<noteq> CHR 0x0A) \<longrightarrow>
            window_cut self text start = (w, start + chunk_size self))"
proof (intro conjI impI)
  assume h: "i < length w \<and> (w ! i = CHR ''.'' \<or> w ! i = CHR 0x0A) \<and>
          (\<forall>j. i < j \<and> j < length w \<longrightarrow> w ! j \<noteq> CHR ''.'' \<and> w ! j \<noteq> CHR 0x0A)"
  then have bp: "max (rfind w CHR ''.'') (rfind w CHR 0x0A) = int i"
    by (intro break_point_last) simp_all
  have "py_slice w 0 (int i + 1) = take (Suc i) w"
    by (simp add: py_slice_prefix nat_add_distrib)
  with bp inner w show "window_cut self text start =
      (if chunk_size self < 2 * int i then (take (Suc i) w, start + int i + 1)
       else (w, start + chunk_size self))"
    by (simp add: window_cut_inner Let_def)
next
  assume h: "i < length w \<and> (w ! i = CHR ''.'' \<or> w ! i = CHR 0x0A) \<and>
          (\<forall>j. i < j \<and> j < length w \<longrightarrow> w ! j \<noteq> CHR ''.'' \<and> w ! j \<noteq> CHR 0x0A)"
    and nonneg: "0 \<le> start"
  from nonneg size have weq: "w = take (nat (chunk_size self)) (drop (nat start) text)"
    unfolding w by (simp add: py_slice_nonneg)
  with h have i: "i < nat (chunk_size self)" "i < length text - nat start" by simp_all
  then have "nat start \<le> length text" by simp
  then have "drop (nat start) text ! i = text ! (nat start + i)" by (rule nth_drop)
  with weq i show "w ! i = text ! (nat start + i)" by simp
next
  assume "\<forall>i<length w. w ! i \<noteq> CHR ''.'' \<and> w ! i \<noteq> CHR 0x0A"
  then have "max (rfind w CHR ''.'') (rfind w CHR 0x0A) = - 1" by (rule break_point_none)
  with inner size w show "window_cut self text start = (w, start + chunk_size self)"
    by (simp add: window_cut_inner Let_def)
qed

theorem window_cut_boundary_witness:
  "0 + chunk_size \<lparr>chunk_size = 10, chunk_overlap = 2\<rparr> < int (length ''aaaaaa.aaaaaaa'') \<and>
   0 < chunk_size \<lparr>chunk_size = 10, chunk_overlap = 2\<rparr> \<and>
   ''aaaaaa.aaa'' = py_slice ''aaaaaa.aaaaaaa'' 0 (0 + chunk_size \<lparr>chunk_size = 10, chunk_overlap = 2\<rparr>) \<and>
   ''aaaaaa.aaa'' ! 6 = CHR ''.'' \<and>
   window_cut \<lparr>chunk_size = 10, chunk_overlap = 2\<rparr> ''aaaaaa.aaaaaaa'' 0 = (''aaaaaa.'', 7)"
proof -
  let ?self = "\<lparr>chunk_size = 10, chunk_overlap = 2\<rparr>"
  let ?w = "''aaaaaa.aaa''"
  have inner: "0 + chunk_size ?self < int (length ''aaaaaa.aaaaaaa'')" by simp
  have size: "0 < chunk_size ?self" by simp
  have w: "?w = py_slice ''aaaaaa.aaaaaaa'' 0 (0 + chunk_size ?self)"
    by (simp add: py_slice_def py_index_def)
  have last: "\<forall>j. 6 < j \<and> j < length ?w \<longrightarrow> ?w ! j \<noteq> CHR ''.'' \<and> ?w ! j \<noteq> CHR 0x0A"
  proof (intro allI impI)
    fix j :: nat
    assume "6 < j \<and> j < length ?w"
    then have "j = 7 \<or> j = 8 \<or> j = 9" by auto
    then show "?w ! j \<noteq> CHR ''.'' \<and> ?w ! j \<noteq> CHR 0x0A" by auto
  qed
  have hit: "?w ! 6 = CHR ''.''" by simp
  from window_cut_boundary[OF inner size w, of 6] last hit
  have "window_cut ?self ''aaaaaa.aaaaaaa'' 0 = (''aaaaaa.'', 7)" by simp
  with inner size w hit show ?thesis by blast
qed

text \<open>
  Claim C2 as the specification states it fails at the half itself: with
  \<open>chunk_size = 10\<close> the only boundary of the first window of \<open>aaaaa.aaaaaaaa\<close> is the
  period at index 5, which is at 50% of the window; the window is not the last, and the
  chunk is not cut at the period but at the raw edge 10.
\<close>

theorem window_cut_at_half_not_trimmed:
  "0 + chunk_size \<lparr>chunk_size = 10, chunk_overlap = 2\<rparr> < int (length ''aaaaa.aaaaaaaa'') \<and>
   py_slice ''aaaaa.aaaaaaaa'' 0 (0 + chunk_size \<lparr>chunk_size = 10, chunk_overlap = 2\<rparr>) = ''aaaaa.aaaa'' \<and>
   rfind ''aaaaa.aaaa'' CHR ''.'' = 5 \<and>
   rfind ''aaaaa.aaaa'' CHR 0x0A = - 1 \<and>
   chunk_size \<lparr>chunk_size = 10, chunk_overlap = 2\<rparr> \<le> 2 * 5 \<and>
   window_cut \<lparr>chunk_size = 10, chunk_overlap = 2\<rparr> ''aaaaa.aaaaaaaa'' 0 = (''aaaaa.aaaa'', 10) \<and>
   map_option (map content) (chunk_text \<lparr>chunk_size = 10, chunk_overlap = 2\<rparr> ''aaaaa.aaaaaaaa'' [])
     = Some [''aaaaa.aaaa'', ''aaaaaa'']"
  by (simp add: chunk_text_def chunk_loop_step chunk_loop_stop window_cut_def py_slice_def
        py_index_def Let_def content_make_chunk strip_def isspace_def)

section \<open>Content and recorded offsets\<close>

text \<open>
  With \<open>chunk_overlap < chunk_size\<close> no window starts at or before \<open>- chunk_size\<close>.
\<close>

lemma next_start_lower_bound:
  assumes size: "0 < chunk_size self" and ov: "chunk_overlap self < chunk_size self"
    and s: "- chunk_size self \<le> s"
  shows "- chunk_size self \<le> snd (window_cut self text s) - chunk_overlap self"
proof (cases "s < 0")
  case True
  with s have "snd (window_cut self text s) = s + chunk_size self"
    by (simp add: window_cut_negative_start)
  with ov s show ?thesis by simp
next
  case False
  from snd_window_cut[of self "text" s] show ?thesis
  proof
    assume "snd (window_cut self text s) = s + chunk_size self"
    with False ov size show ?thesis by simp
  next
    assume "\<exists>bp. snd (window_cut self text s) = s + bp + 1 \<and> chunk_size self < 2 * bp \<and>
      bp < int (length (py_slice text s (s + chunk_size self))) \<and>
      s + chunk_size self < int (length text)"
    then obtain bp where "snd (window_cut self text s) = s + bp + 1" "chunk_size self < 2 * bp"
      by blast
    with False ov size show ?thesis by simp
  qed
qed

text \<open>
  Claim C10. Every chunk of a returned list records offsets \<open>start_char = s\<close> and
  \<open>end_char = e\<close> such that its content is the stripped Python slice \<open>text[s:e]\<close> (which
  stops at the end of the text); and \<open>e\<close> is not clamped to the length of the text: when
  the raw window end \<open>s + chunk_size\<close> is not inside the text, the window is not trimmed
  and \<open>e\<close> is \<open>s + chunk_size\<close>. This holds for every configuration.
\<close>

theorem chunk_content_is_slice:
  assumes run: "chunk_text self text md = Some chunks"
    and c: "c \<in> set chunks"
  shows "\<exists>s e. map_of (metadata c) ''start_char'' = Some (PInt s) \<and>
           map_of (metadata c) ''end_char'' = Some (PInt e) \<and>
           content c = strip (py_slice text s e) \<and>
           (int (length text) \<le> s + chunk_size self \<longrightarrow> e = s + chunk_size self)"
proof -
  let ?good = "\<lambda>c::DocumentChunk. \<exists>s e. map_of (metadata c) ''start_char'' = Some (PInt s) \<and>
           map_of (metadata c) ''end_char'' = Some (PInt e) \<and>
           content c = strip (py_slice text s e) \<and>
           (int (length text) \<le> s + chunk_size self \<longrightarrow> e = s + chunk_size self)"
  from run have loop: "chunk_loop self text md 0 0 [] = Some chunks" by (simp add: chunk_text_def)
  have good: "?good (make_chunk md n s (window_cut self text s))"
    if slice: "fst (window_cut self text s) = py_slice text s (snd (window_cut self text s))"
    for s n
  proof (intro exI conjI)
    show "map_of (metadata (make_chunk md n s (window_cut self text s))) ''start_char'' = Some (PInt s)"
      by (simp add: metadata_make_chunk)
    show "map_of (metadata (make_chunk md n s (window_cut self text s))) ''end_char''
        = Some (PInt (snd (window_cut self text s)))"
      by (simp add: metadata_make_chunk)
    show "content (make_chunk md n s (window_cut self text s))
        = strip (py_slice text s (snd (window_cut self text s)))"
      using slice by (simp add: content_make_chunk)
    show "int (length text) \<le> s + chunk_size self \<longrightarrow>
        snd (window_cut self text s) = s + chunk_size self"
      by (simp add: window_cut_last)
  qed
  consider (nonpos) "chunk_size self \<le> 0"
    | (regular) "0 < chunk_size self" "chunk_overlap self < chunk_size self"
    | (stuck) "0 < chunk_size self" "chunk_size self \<le> chunk_overlap self"
    by linarith
  then show ?thesis
  proof cases
    case nonpos
    have "\<exists>s (n::int). (\<forall>c\<in>set chunks. ?good c) \<and> \<not> s < int (length text)"
    proof (rule chunk_loop_rule[where I = "\<lambda>s n cs. \<forall>c\<in>set cs. ?good c", OF loop])
      show "\<forall>c\<in>set []. ?good c" by simp
    next
      fix s n cs
      assume inv: "\<forall>c\<in>set cs. ?good c"
      from good[OF window_cut_is_slice_nonpos_size[OF nonpos]] inv
      show "\<forall>c\<in>set (cs @ [make_chunk md n s (window_cut self text s)]). ?good c" by simp
    qed
    with c show ?thesis by blast
  next
    case regular
    let ?I = "\<lambda>s (n::int) cs. - chunk_size self \<le> s \<and> (\<forall>c\<in>set cs. ?good c)"
    have "\<exists>s n. ?I s n chunks \<and> \<not> s < int (length text)"
    proof (rule chunk_loop_rule[where I = ?I, OF loop])
      show "?I 0 0 []" using regular by simp
    next
      fix s n cs
      assume inv: "?I s n cs"
      then have s: "- chunk_size self \<le> s" by simp
      from good[OF window_cut_is_slice[OF s]] inv next_start_lower_bound[OF regular s, of "text"]
      show "?I (snd (window_cut self text s) - chunk_overlap self) (n + 1)
          (cs @ [make_chunk md n s (window_cut self text s)])" by simp
    qed
    with c show ?thesis by blast
  next
    case stuck
    show ?thesis
    proof (cases "text = []")
      case True
      with loop have "chunks = []" by (simp add: chunk_loop_stop)
      with c show ?thesis by simp
    next
      case False
      from chunk_loop_stuck[OF stuck False] loop show ?thesis by simp
    qed
  qed
qed

theorem chunk_content_is_slice_witness:
  "chunk_text \<lparr>chunk_size = 10, chunk_overlap = 2\<rparr> '' abcdefg'' []
     = Some [make_chunk [] 0 0 ('' abcdefg'', 10)] \<and>
   (\<exists>s e. map_of (metadata (make_chunk [] 0 0 ('' abcdefg'', 10))) ''start_char'' = Some (PInt s) \<and>
           map_of (metadata (make_chunk [] 0 0 ('' abcdefg'', 10))) ''end_char'' = Some (PInt e) \<and>
           content (make_chunk [] 0 0 ('' abcdefg'', 10)) = strip (py_slice '' abcdefg'' s e) \<and>
           s = 0 \<and> e = 10 \<and> int (length '' abcdefg'') < e)"
proof -
  let ?self = "\<lparr>chunk_size = 10, chunk_overlap = 2\<rparr>"
  let ?c = "make_chunk [] 0 0 ('' abcdefg'', 10)"
  have run: "chunk_text ?self '' abcdefg'' [] = Some [?c]"
    by (simp add: chunk_text_def chunk_loop_step chunk_loop_stop window_cut_def py_slice_def
          py_index_def Let_def)
  have c: "?c \<in> set [?c]" by simp
  from chunk_content_is_slice[OF run c] run show ?thesis
    by (auto simp: metadata_make_chunk)
qed

section \<open>Configurations on which the window moves forward\<close>

lemma offsets_make_chunk:
  "start_char (make_chunk md n s wc) = s"
  "end_char (make_chunk md n s wc) = snd wc"
  by (simp_all add: start_char_def end_char_def int_entry_def metadata_make_chunk)

text \<open>
  When \<open>chunk_overlap < chunk_size\<close> and \<open>2 * chunk_overlap \<le> chunk_size + 1\<close> (as with the
  defaults 1000 and 200), a break point beyond the half of the window is at least
  \<open>chunk_overlap\<close>, so every pass moves \<open>start\<close> forward.
\<close>

lemma next_start_forward:
  assumes ov: "chunk_overlap self < chunk_size self"
    and half: "2 * chunk_overlap self \<le> chunk_size self + 1"
  shows "s < snd (window_cut self text s) - chunk_overlap self"
proof -
  from snd_window_cut[of self "text" s] show ?thesis
  proof
    assume "snd (window_cut self text s) = s + chunk_size self"
    with ov show ?thesis by simp
  next
    assume "\<exists>bp. snd (window_cut self text s) = s + bp + 1 \<and> chunk_size self < 2 * bp \<and>
      bp < int (length (py_slice text s (s + chunk_size self))) \<and>
      s + chunk_size self < int (length text)"
    then obtain bp where "snd (window_cut self text s) = s + bp + 1" "chunk_size self < 2 * bp"
      by blast
    with half show ?thesis by simp
  qed
qed

lemma chunk_text_returns:
  assumes ov: "chunk_overlap self < chunk_size self"
    and half: "2 * chunk_overlap self \<le> chunk_size self + 1"
  shows "\<exists>chunks. chunk_text self text md = Some chunks"
proof -
  have "\<exists>r. chunk_loop self text md 0 0 [] = Some r"
  proof (rule chunk_loop_terminates[where I = "\<lambda>s. True"])
    fix s :: int
    show "True \<and> s < snd (window_cut self text s) - chunk_overlap self"
      using next_start_forward[OF ov half] by simp
  qed simp
  then show ?thesis by (simp add: chunk_text_def)
qed

text \<open>
  On these configurations, with \<open>0 \<le> chunk_overlap\<close>, the chunks tile the text: every
  chunk has \<open>start_char < end_char\<close>, each chunk starts \<open>chunk_overlap\<close> before the end of
  the one before it and after its start, and every offset of the text lies in the
  range of some chunk.
\<close>

lemma chunk_text_tiles_text:
  assumes nonneg: "0 \<le> chunk_overlap self"
    and ov: "chunk_overlap self < chunk_size self"
    and half: "2 * chunk_overlap self \<le> chunk_size self + 1"
  shows "\<exists>chunks. chunk_text self text md = Some chunks \<and>
     (\<forall>c\<in>set chunks. start_char c < end_char c) \<and>
     (\<forall>i. Suc i < length chunks \<longrightarrow>
        start_char (chunks ! Suc i) = end_char (chunks ! i) - chunk_overlap self \<and>
        start_char (chunks ! i) < start_char (chunks ! Suc i)) \<and>
     (\<forall>p. 0 \<le> p \<and> p < int (length text) \<longrightarrow>
        (\<exists>c\<in>set chunks. start_char c \<le> p \<and> p < end_char c))"
proof -
  let ?o = "chunk_overlap self"
  let ?chain = "\<lambda>cs::DocumentChunk list. \<forall>i. Suc i < length cs \<longrightarrow>
        start_char (cs ! Suc i) = end_char (cs ! i) - ?o \<and>
        start_char (cs ! i) < start_char (cs ! Suc i)"
  let ?cover = "\<lambda>(cs::DocumentChunk list) b. \<forall>p. 0 \<le> p \<and> p < b \<longrightarrow>
        (\<exists>c\<in>set cs. start_char c \<le> p \<and> p < end_char c)"
  let ?I = "\<lambda>s (n::int) cs.
      (cs = [] \<longrightarrow> s = 0) \<and>
      (cs \<noteq> [] \<longrightarrow> s = end_char (last cs) - ?o \<and> start_char (last cs) < s \<and> ?cover cs (s + ?o)) \<and>
      (\<forall>c\<in>set cs. start_char c < end_char c) \<and> ?chain cs"
  from chunk_text_returns[OF ov half] obtain chunks where
    run: "chunk_text self text md = Some chunks" by blast
  then have loop: "chunk_loop self text md 0 0 [] = Some chunks" by (simp add: chunk_text_def)
  have "\<exists>s n. ?I s n chunks \<and> \<not> s < int (length text)"
  proof (rule chunk_loop_rule[where I = ?I, OF loop])
    show "?I 0 0 []" by simp
  next
    fix s n cs
    assume inv: "?I s n cs" and "s < int (length text)"
    let ?c = "make_chunk md n s (window_cut self text s)"
    let ?e = "snd (window_cut self text s)"
    let ?s' = "?e - ?o"
    have fwd: "s < ?s'" by (rule next_start_forward[OF ov half])
    have offs: "start_char ?c = s" "end_char ?c = ?e" by (simp_all add: offsets_make_chunk)
    from fwd nonneg have pos: "start_char ?c < end_char ?c" by (simp add: offs)
    have cover: "?cover (cs @ [?c]) (?s' + ?o)"
    proof (intro allI impI)
      fix p assume p: "0 \<le> p \<and> p < ?s' + ?o"
      show "\<exists>c\<in>set (cs @ [?c]). start_char c \<le> p \<and> p < end_char c"
      proof (cases "s \<le> p")
        case True
        with p have "start_char ?c \<le> p \<and> p < end_char ?c" by (simp add: offs)
        then show ?thesis by auto
      next
        case False
        with p inv have "cs \<noteq> []" by auto
        with inv have "?cover cs (s + ?o)" by blast
        moreover from False nonneg p have "0 \<le> p \<and> p < s + ?o" by simp
        ultimately obtain c where "c \<in> set cs" "start_char c \<le> p \<and> p < end_char c" by blast
        then show ?thesis by auto
      qed
    qed
    have chain: "?chain (cs @ [?c])"
    proof (intro allI impI)
      fix i assume i: "Suc i < length (cs @ [?c])"
      show "start_char ((cs @ [?c]) ! Suc i) = end_char ((cs @ [?c]) ! i) - ?o \<and>
        start_char ((cs @ [?c]) ! i) < start_char ((cs @ [?c]) ! Suc i)"
      proof (cases "Suc i < length cs")
        case True
        from inv have "?chain cs" by blast
        with True have "start_char (cs ! Suc i) = end_char (cs ! i) - ?o \<and>
            start_char (cs ! i) < start_char (cs ! Suc i)" by blast
        with True show ?thesis by (simp add: nth_append)
      next
        case False
        with i have eq: "Suc i = length cs" by simp
        then have ne: "cs \<noteq> []" by auto
        from eq have i': "i = length cs - 1" by simp
        from eq have nth: "(cs @ [?c]) ! i = last cs" "(cs @ [?c]) ! Suc i = ?c"
          by (simp_all add: nth_append last_conv_nth[OF ne] i')
        from inv ne have l1: "s = end_char (last cs) - ?o" and l2: "start_char (last cs) < s"
          by blast+
        show ?thesis
        proof (intro conjI)
          show "start_char ((cs @ [?c]) ! Suc i) = end_char ((cs @ [?c]) ! i) - ?o"
            unfolding nth offs by (rule l1)
          show "start_char ((cs @ [?c]) ! i) < start_char ((cs @ [?c]) ! Suc i)"
            unfolding nth offs by (rule l2)
        qed
      qed
    qed
    from inv pos have all: "\<forall>c\<in>set (cs @ [?c]). start_char c < end_char c" by simp
    have a: "cs @ [?c] = [] \<longrightarrow> ?s' = 0" by simp
    have l1: "?s' = end_char (last (cs @ [?c])) - ?o" by (simp add: offs)
    have l2: "start_char (last (cs @ [?c])) < ?s'" using fwd by (simp add: offs)
    from l1 l2 cover
    have b: "cs @ [?c] \<noteq> [] \<longrightarrow> ?s' = end_char (last (cs @ [?c])) - ?o \<and>
        start_char (last (cs @ [?c])) < ?s' \<and> ?cover (cs @ [?c]) (?s' + ?o)" by blast
    show "?I ?s' (n + 1) (cs @ [?c])" by (intro conjI a b all chain)
  qed
  then obtain s n where fin: "?I s n chunks" and out: "\<not> s < int (length text)" by blast
  have "\<exists>c\<in>set chunks. start_char c \<le> p \<and> p < end_char c"
    if p: "0 \<le> p \<and> p < int (length text)" for p
  proof -
    from p out fin have "chunks \<noteq> []" by auto
    with fin have "?cover chunks (s + ?o)" by blast
    moreover from p out nonneg have "0 \<le> p \<and> p < s + ?o" by simp
    ultimately show ?thesis by blast
  qed
  with run fin show ?thesis by blast
qed

section \<open>Facts about float rounding\<close>

lemma round_half_even_bounds: "\<lfloor>y\<rfloor> \<le> round_half_even y \<and> round_half_even y \<le> \<lfloor>y\<rfloor> + 1"
  by (simp add: round_half_even_def Let_def)

lemma round_half_even_mono:
  assumes "a \<le> b"
  shows "round_half_even a \<le> round_half_even b"
proof (cases "\<lfloor>a\<rfloor> = \<lfloor>b\<rfloor>")
  case True
  with assms have "a - of_int \<lfloor>a\<rfloor> \<le> b - of_int \<lfloor>b\<rfloor>" by simp
  with True show ?thesis by (auto simp: round_half_even_def Let_def)
next
  case False
  with floor_mono[OF assms] have "\<lfloor>a\<rfloor> + 1 \<le> \<lfloor>b\<rfloor>" by linarith
  with round_half_even_bounds[of a] round_half_even_bounds[of b] show ?thesis by linarith
qed

lemma round_half_even_of_int: "round_half_even (of_int k) = k"
  by (simp add: round_half_even_def Let_def)

lemma round_half_even_minus: "round_half_even (- y) = - round_half_even y"
proof (cases "y = of_int \<lfloor>y\<rfloor>")
  case True
  then obtain k where "y = of_int k" ..
  then have "- y = of_int (- k)" by simp
  then show ?thesis using \<open>y = of_int k\<close> by (simp only: round_half_even_of_int)
next
  case False
  then have fl: "\<lfloor>- y\<rfloor> = - \<lfloor>y\<rfloor> - 1"
    by (simp add: floor_minus ceiling_altdef)
  have r: "0 < y - of_int \<lfloor>y\<rfloor>" using False
    by (metis diff_gt_0_iff_gt of_int_floor_le order_less_le)
  show ?thesis
    unfolding round_half_even_def Let_def fl
    using r by (auto simp: field_simps)
qed

lemma pow2_powr: "pow2 k = 2 powr (of_int k)"
proof (cases "0 \<le> k")
  case True
  then have "(2::real) powr (of_int k) = 2 powr (real (nat k))" by simp
  also have "\<dots> = 2 ^ nat k" by (simp add: powr_realpow)
  finally show ?thesis using True by (simp add: pow2_def)
next
  case False
  then have "(2::real) powr (of_int k) = 2 powr (- real (nat (- k)))" by simp
  also have "\<dots> = 1 / 2 ^ nat (- k)" by (simp add: powr_minus_divide powr_realpow)
  finally show ?thesis using False by (simp add: pow2_def)
qed

lemma pow2_pos: "0 < pow2 k"
  by (simp add: pow2_powr)

lemma pow2_add: "pow2 (a + b) = pow2 a * pow2 b"
  by (simp add: pow2_powr powr_add)

lemma pow2_less_iff: "pow2 a < pow2 b \<longleftrightarrow> a < b"
  by (simp add: pow2_powr)

lemma pow2_le_iff: "pow2 a \<le> pow2 b \<longleftrightarrow> a \<le> b"
  by (simp add: pow2_powr)

lemma pow2_nat: "pow2 (int n) = 2 ^ n"
  by (simp add: pow2_def)

lemma pow2_of_int: "pow2 (int n) = of_int (2 ^ n)"
  by (simp add: pow2_def)

text \<open>The exponent brackets its argument, and only one exponent does.\<close>

lemma float_exponent_bounds:
  assumes "x \<noteq> 0"
  shows "pow2 (float_exponent x) \<le> \<bar>x\<bar> \<and> \<bar>x\<bar> < pow2 (float_exponent x + 1)"
proof (cases "1 \<le> \<bar>x\<bar>")
  case True
  let ?n = "\<lfloor>\<bar>x\<bar>\<rfloor>"
  from True have n: "0 < ?n" by simp
  let ?e = "bitlen ?n - 1"
  from bitlen_bounds[OF n] have lo: "2 ^ nat ?e \<le> ?n" and hi: "?n < 2 ^ nat (bitlen ?n)" by simp_all
  from n have e0: "0 \<le> ?e" using bitlen_nonneg[of ?n] bitlen_eq_zero_iff[of ?n] by linarith
  then have e1: "nat (bitlen ?n) = Suc (nat ?e)" by simp
  have fe: "float_exponent x = ?e" using True by (simp add: float_exponent_def)
  from lo have "(of_int (2 ^ nat ?e) :: real) \<le> of_int ?n" by (simp only: of_int_le_iff)
  also have "\<dots> \<le> \<bar>x\<bar>" by simp
  finally have a: "pow2 ?e \<le> \<bar>x\<bar>" using e0 by (simp add: pow2_def)
  from hi have "?n + 1 \<le> 2 ^ nat (bitlen ?n)" by simp
  then have "(of_int (?n + 1) :: real) \<le> of_int (2 ^ nat (bitlen ?n))" by (simp only: of_int_le_iff)
  moreover have "\<bar>x\<bar> < of_int (?n + 1)" by linarith
  ultimately have "\<bar>x\<bar> < of_int (2 ^ nat (bitlen ?n))" by linarith
  then have b: "\<bar>x\<bar> < pow2 (?e + 1)" using e0 by (simp add: pow2_def e1)
  from a b fe show ?thesis by simp
next
  case False
  with assms have x: "0 < \<bar>x\<bar>" "\<bar>x\<bar> < 1" by simp_all
  let ?y = "1 / \<bar>x\<bar>"
  from x have y: "1 < ?y" by simp
  let ?m = "\<lceil>?y\<rceil>"
  from y have m: "0 < ?m - 1" by linarith
  let ?k = "bitlen (?m - 1)"
  from bitlen_bounds[OF m] have lo: "2 ^ nat (?k - 1) \<le> ?m - 1" and hi: "?m - 1 < 2 ^ nat ?k"
    by simp_all
  from m have k1: "1 \<le> ?k" using bitlen_nonneg[of "?m - 1"] bitlen_eq_zero_iff[of "?m - 1"]
    by linarith
  have fe: "float_exponent x = - ?k" using False by (simp add: float_exponent_def)
  from hi have "?m \<le> 2 ^ nat ?k" by simp
  then have "(of_int ?m :: real) \<le> of_int (2 ^ nat ?k)" by (simp only: of_int_le_iff)
  moreover have "?y \<le> of_int ?m" by (rule le_of_int_ceiling)
  moreover have "(of_int (2 ^ nat ?k) :: real) = 2 ^ nat ?k" by simp
  ultimately have "?y \<le> 2 ^ nat ?k" by linarith
  with x have "1 \<le> 2 ^ nat ?k * \<bar>x\<bar>" by (simp add: field_simps)
  then have a: "pow2 (- ?k) \<le> \<bar>x\<bar>" using k1 by (simp add: pow2_def field_simps)
  from lo have "(of_int (2 ^ nat (?k - 1)) :: real) \<le> of_int (?m - 1)" by (simp only: of_int_le_iff)
  moreover have "of_int (?m - 1) < ?y" by linarith
  moreover have "(of_int (2 ^ nat (?k - 1)) :: real) = 2 ^ nat (?k - 1)" by simp
  ultimately have "2 ^ nat (?k - 1) < ?y" by linarith
  with x have lt: "2 ^ nat (?k - 1) * \<bar>x\<bar> < 1" by (simp add: field_simps)
  have b: "\<bar>x\<bar> < pow2 (- ?k + 1)"
  proof (cases "?k = 1")
    case True
    with x show ?thesis by (simp add: pow2_def)
  next
    case False
    with k1 have "- ?k + 1 < 0" by simp
    moreover have "nat (- (- ?k + 1)) = nat (?k - 1)" by simp
    ultimately show ?thesis using lt by (simp add: pow2_def field_simps)
  qed
  from a b fe show ?thesis by simp
qed

lemma float_exponent_unique:
  assumes lo: "pow2 e \<le> \<bar>x\<bar>" and hi: "\<bar>x\<bar> < pow2 (e + 1)"
  shows "float_exponent x = e"
proof -
  from lo pow2_pos[of e] have "x \<noteq> 0" by auto
  from float_exponent_bounds[OF this]
  have lo': "pow2 (float_exponent x) \<le> \<bar>x\<bar>" and hi': "\<bar>x\<bar> < pow2 (float_exponent x + 1)"
    by simp_all
  from lo hi' have "pow2 e < pow2 (float_exponent x + 1)" by linarith
  moreover from lo' hi have "pow2 (float_exponent x) < pow2 (e + 1)" by linarith
  ultimately show ?thesis by (simp add: pow2_less_iff)
qed

lemma float_exponent_minus: "float_exponent (- x) = float_exponent x"
  by (simp add: float_exponent_def)

lemma float_exponent_mono:
  assumes "0 < x" and "x \<le> y"
  shows "float_exponent x \<le> float_exponent y"
proof -
  from assms have "x \<noteq> 0" "y \<noteq> 0" by simp_all
  from float_exponent_bounds[OF this(1)] float_exponent_bounds[OF this(2)] assms
  have "pow2 (float_exponent x) < pow2 (float_exponent y + 1)" by simp
  then show ?thesis by (simp add: pow2_less_iff)
qed

lemma float_round_zero: "float_round 0 = 0"
  by (simp add: float_round_def Let_def round_half_even_def)

lemma float_round_minus: "float_round (- x) = - float_round x"
  by (simp add: float_round_def Let_def float_exponent_minus round_half_even_minus)

text \<open>Rounding a positive number stays within its binade.\<close>

lemma float_round_binade_bounds:
  assumes x: "0 < x"
  defines "b \<equiv> max (float_exponent x) (- 1022)"
  shows "0 \<le> float_round x" and "float_round x \<le> pow2 (b + 1)"
    and "- 1022 \<le> float_exponent x \<Longrightarrow> pow2 b \<le> float_round x"
proof -
  let ?u = "pow2 (b - 52)"
  have u: "0 < ?u" by (rule pow2_pos)
  have fr: "float_round x = of_int (round_half_even (x / ?u)) * ?u"
    by (simp add: float_round_def Let_def b_def)
  from x have x0: "x \<noteq> 0" by simp
  from float_exponent_bounds[OF x0] x
  have lo: "pow2 (float_exponent x) \<le> x" and hi: "x < pow2 (float_exponent x + 1)" by simp_all
  have "pow2 (float_exponent x + 1) \<le> pow2 (b + 1)" by (simp add: pow2_le_iff b_def)
  with hi have hi': "x \<le> pow2 (b + 1)" by linarith
  have p53: "pow2 53 = of_int (2 ^ 53)" and p52: "pow2 52 = of_int (2 ^ 52)"
    by (simp_all add: pow2_def)
  have "b + 1 = 53 + (b - 52)" by linarith
  then have "pow2 (b + 1) = pow2 (53 + (b - 52))" by (rule arg_cong)
  also have "\<dots> = pow2 53 * ?u" by (rule pow2_add)
  finally have top: "pow2 (b + 1) = of_int (2 ^ 53) * ?u" by (simp only: p53)
  have "b = 52 + (b - 52)" by linarith
  then have "pow2 b = pow2 (52 + (b - 52))" by (rule arg_cong)
  also have "\<dots> = pow2 52 * ?u" by (rule pow2_add)
  finally have bot: "pow2 b = of_int (2 ^ 52) * ?u" by (simp only: p52)
  from x u have "0 \<le> x / ?u" by simp
  from round_half_even_mono[OF this] have "0 \<le> round_half_even (x / ?u)"
    using round_half_even_of_int[of 0] by simp
  with u show "0 \<le> float_round x" by (simp add: fr)
  from hi' have "x \<le> of_int (2 ^ 53) * ?u" unfolding top .
  with u have "x / ?u \<le> of_int (2 ^ 53)" by (simp only: pos_divide_le_eq)
  from round_half_even_mono[OF this] have "round_half_even (x / ?u) \<le> 2 ^ 53"
    by (simp only: round_half_even_of_int)
  then have "(of_int (round_half_even (x / ?u)) :: real) \<le> of_int (2 ^ 53)"
    by (simp only: of_int_le_iff)
  with u show "float_round x \<le> pow2 (b + 1)"
    unfolding fr top by (simp only: mult_le_cancel_right_pos)
  assume "- 1022 \<le> float_exponent x"
  then have "b = float_exponent x" by (simp add: b_def)
  with lo have "pow2 b \<le> x" by simp
  then have "of_int (2 ^ 52) * ?u \<le> x" unfolding bot .
  with u have "of_int (2 ^ 52) \<le> x / ?u" by (simp only: pos_le_divide_eq)
  from round_half_even_mono[OF this] have "2 ^ 52 \<le> round_half_even (x / ?u)"
    by (simp only: round_half_even_of_int)
  then have "(of_int (2 ^ 52) :: real) \<le> of_int (round_half_even (x / ?u))"
    by (simp only: of_int_le_iff)
  with u show "pow2 b \<le> float_round x"
    unfolding fr bot by (simp only: mult_le_cancel_right_pos)
qed

lemma float_round_mono_pos:
  assumes x: "0 < x" and xy: "x \<le> y"
  shows "float_round x \<le> float_round y"
proof -
  let ?bx = "max (float_exponent x) (- 1022)"
  let ?by = "max (float_exponent y) (- 1022)"
  from x xy have y: "0 < y" by simp
  from float_exponent_mono[OF x xy] have le: "?bx \<le> ?by" by simp
  show ?thesis
  proof (cases "?bx = ?by")
    case True
    let ?u = "pow2 (?bx - 52)"
    have u: "0 < ?u" by (rule pow2_pos)
    from xy u have "x / ?u \<le> y / ?u" by (simp add: divide_right_mono)
    from round_half_even_mono[OF this]
    have "(of_int (round_half_even (x / ?u)) :: real) \<le> of_int (round_half_even (y / ?u))"
      by (simp only: of_int_le_iff)
    with u have "of_int (round_half_even (x / ?u)) * ?u \<le> of_int (round_half_even (y / ?u)) * ?u"
      by (simp only: mult_le_cancel_right_pos)
    then show ?thesis unfolding float_round_def Let_def True[symmetric] .
  next
    case False
    with le have lt: "?bx + 1 \<le> ?by" by simp
    then have normal: "- 1022 \<le> float_exponent y" by simp
    from float_round_binade_bounds(2)[OF x] have "float_round x \<le> pow2 (?bx + 1)" .
    also from lt have "\<dots> \<le> pow2 ?by" by (simp only: pow2_le_iff)
    also from float_round_binade_bounds(3)[OF y normal] have "\<dots> \<le> float_round y" .
    finally show ?thesis .
  qed
qed

lemma float_round_mono:
  assumes "x \<le> y"
  shows "float_round x \<le> float_round y"
proof -
  consider (pos) "0 < x" | (neg) "y < 0" | (mid) "x \<le> 0" "0 \<le> y" using assms by linarith
  then show ?thesis
  proof cases
    case pos
    then show ?thesis using assms by (rule float_round_mono_pos)
  next
    case neg
    with assms have "0 < - y" "- y \<le> - x" by simp_all
    from float_round_mono_pos[OF this] show ?thesis by (simp add: float_round_minus)
  next
    case mid
    have "float_round x \<le> 0"
    proof (cases "x = 0")
      case True
      then show ?thesis by (simp add: float_round_zero)
    next
      case False
      with mid have "0 < - x" by simp
      from float_round_binade_bounds(1)[OF this] show ?thesis by (simp add: float_round_minus)
    qed
    moreover have "0 \<le> float_round y"
    proof (cases "y = 0")
      case True
      then show ?thesis by (simp add: float_round_zero)
    next
      case False
      with mid have "0 < y" by simp
      then show ?thesis by (rule float_round_binade_bounds(1))
    qed
    ultimately show ?thesis by linarith
  qed
qed

text \<open>Rounding in a known binade, for computing with concrete floats.\<close>
lemma float_round_in_binade:
  assumes "pow2 e \<le> \<bar>x\<bar>" and "\<bar>x\<bar> < pow2 (e + 1)" and "- 1022 \<le> e"
  shows "float_round x = of_int (round_half_even (x / pow2 (e - 52))) * pow2 (e - 52)"
  using float_exponent_unique[OF assms(1,2)] assms(3)
  by (simp add: float_round_def Let_def)
lemma pow2_neg_nat: "pow2 (- int n) = 1 / 2 ^ n"
  by (cases n) (simp_all add: pow2_def del: of_nat_Suc)

lemma float_round_below_one:
  assumes "1 \<le> \<bar>x\<bar> * 2 ^ Suc n" and "\<bar>x\<bar> * 2 ^ n < 1" and "n \<le> 1021"
  shows "float_round x = of_int (round_half_even (x * 2 ^ (n + 53))) / 2 ^ (n + 53)"
proof -
  have p1: "pow2 (- int (Suc n)) = 1 / 2 ^ Suc n" by (rule pow2_neg_nat)
  have "- int (Suc n) + 1 = - int n" by simp
  then have p2: "pow2 (- int (Suc n) + 1) = 1 / 2 ^ n" by (simp only: pow2_neg_nat)
  have "- int (Suc n) - 52 = - int (n + 53)" by simp
  then have p3: "pow2 (- int (Suc n) - 52) = 1 / 2 ^ (n + 53)" by (simp only: pow2_neg_nat)
  from assms(1) have a: "pow2 (- int (Suc n)) \<le> \<bar>x\<bar>" unfolding p1 by (simp add: field_simps)
  from assms(2) have b: "\<bar>x\<bar> < pow2 (- int (Suc n) + 1)" unfolding p2 by (simp add: field_simps)
  from assms(3) have c: "- 1022 \<le> - int (Suc n)" by simp
  from float_round_in_binade[OF a b c] show ?thesis unfolding p3 by simp
qed
lemma float_round_from_one:
  assumes "2 ^ n \<le> \<bar>x\<bar>" and "\<bar>x\<bar> < 2 ^ Suc n" and "n \<le> 52"
  shows "float_round x = of_int (round_half_even (x * 2 ^ (52 - n))) / 2 ^ (52 - n)"
proof -
  have p1: "pow2 (int n) = 2 ^ n" by (rule pow2_nat)
  have "int n + 1 = int (Suc n)" by simp
  then have p2: "pow2 (int n + 1) = 2 ^ Suc n" by (simp only: pow2_nat)
  from assms(3) have "int n - 52 = - int (52 - n)" by simp
  then have p3: "pow2 (int n - 52) = 1 / 2 ^ (52 - n)" by (simp only: pow2_neg_nat)
  from assms(1) have a: "pow2 (int n) \<le> \<bar>x\<bar>" unfolding p1 .
  from assms(2) have b: "\<bar>x\<bar> < pow2 (int n + 1)" unfolding p2 .
  have c: "- 1022 \<le> int n" by simp
  from float_round_in_binade[OF a b c] show ?thesis unfolding p3 by simp
qed
lemma py_round_mono:
  assumes "x \<le> y"
  shows "py_round x n \<le> py_round y n"
proof -
  from assms have "x * 10 ^ n \<le> y * 10 ^ n" by simp
  from round_half_even_mono[OF this]
  have "(of_int (round_half_even (x * 10 ^ n)) :: real) \<le> of_int (round_half_even (y * 10 ^ n))"
    by (simp only: of_int_le_iff)
  then have "of_int (round_half_even (x * 10 ^ n)) / 10 ^ n
      \<le> (of_int (round_half_even (y * 10 ^ n)) :: real) / 10 ^ n"
    by (simp add: divide_right_mono)
  then show ?thesis unfolding py_round_def by (rule float_round_mono)
qed

lemma float_round_one: "float_round 1 = 1"
proof -
  have "float_round 1 = of_int (round_half_even (1 * 2 ^ (52 - 0))) / 2 ^ (52 - 0)"
    by (rule float_round_from_one) simp_all
  also have "(1::real) * 2 ^ (52 - 0) = of_int (2 ^ 52)" by simp
  also have "round_half_even (of_int (2 ^ 52)) = 2 ^ 52" by (rule round_half_even_of_int)
  finally show ?thesis by simp
qed

lemma py_round_zero: "py_round 0 n = 0"
proof -
  have "round_half_even 0 = 0" using round_half_even_of_int[of 0] by simp
  then show ?thesis by (simp add: py_round_def float_round_zero)
qed

lemma py_round_one: "py_round 1 n = 1"
proof -
  have "(1::real) * 10 ^ n = of_int (10 ^ n)" by simp
  then have "round_half_even (1 * 10 ^ n) = 10 ^ n" by (simp only: round_half_even_of_int)
  then show ?thesis by (simp add: py_round_def float_round_one)
qed

section \<open>Loops that append\<close>

lemma foldl_append_each: "foldl (\<lambda>acc x. acc @ [f x]) acc xs = acc @ map f xs"
  by (induction xs arbitrary: acc) simp_all

section \<open>Search is best effort\<close>

lemma search_results_empty_iff:
  "fst (search e ws q None) \<noteq> [] \<longleftrightarrow>
     (\<exists>results. tavily_client_search e q (max_results ws) = Inr (Some results) \<and> results \<noteq> [])"
  by (auto simp: search_def foldl_append_each Let_def split: sum.splits option.splits)

text \<open>
  Claim C6. Let the retrieval return \<open>kb\<close>. \<open>search\<close> never raises: it returns the empty
  list when the provider call raises or its response has no results. When \<open>search\<close>
  returns the empty list, \<open>query\<close> is the request without search: it fails only if the
  generation call on the prompt without search context fails, and otherwise returns
  the answer with \<open>used_web_search = False\<close> and a source list of \<open>knowledge_base\<close>
  entries only. In every returned response \<open>used_web_search\<close> is true exactly when the
  gate fired (search allowed and \<open>should_use_search\<close>) and the search returned at least
  one result; and an exception of \<open>query\<close> is an exception of the generation call.
\<close>

theorem query_search_best_effort:
  assumes kb: "vector_store_search e q k = Inr kb"
  shows "((tavily_client_search e q (max_results (web_search self)) = Inl err \<or>
           tavily_client_search e q (max_results (web_search self)) = Inr None \<or>
           tavily_client_search e q (max_results (web_search self)) = Inr (Some []))
            \<longrightarrow> fst (search e (web_search self) q None) = []) \<and>
         (fst (search e (web_search self) q None) = [] \<longrightarrow>
            fst (query e self q use_search k th) =
              (case chat_completions_create e (create_prompt q kb None) of
                 Inl ex \<Rightarrow> Inl ex
               | Inr a \<Rightarrow> Inr \<lparr> answer = a, sources = format_sources kb [],
                                confidence = calculate_confidence kb, used_web_search = False \<rparr>) \<and>
            (\<forall>s\<in>set (format_sources kb []). source_type s = ''knowledge_base'')) \<and>
         (fst (query e self q use_search k th) = Inr r \<longrightarrow>
            (used_web_search r \<longleftrightarrow>
               use_search \<and> should_use_search kb th \<and>
               (\<exists>results. tavily_client_search e q (max_results (web_search self)) = Inr (Some results)
                   \<and> results \<noteq> [])) \<and>
            (\<not> used_web_search r \<longrightarrow> (\<forall>s\<in>set (sources r). source_type s = ''knowledge_base''))) \<and>
         (fst (query e self q use_search k th) = Inl ex \<longrightarrow>
            (\<exists>messages. chat_completions_create e messages = Inl ex))"
proof (intro conjI impI)
  assume "tavily_client_search e q (max_results (web_search self)) = Inl err \<or>
           tavily_client_search e q (max_results (web_search self)) = Inr None \<or>
           tavily_client_search e q (max_results (web_search self)) = Inr (Some [])"
  then show "fst (search e (web_search self) q None) = []"
    by (auto simp: search_def)
next
  assume "fst (search e (web_search self) q None) = []"
  then show "fst (query e self q use_search k th) =
              (case chat_completions_create e (create_prompt q kb None) of
                 Inl ex \<Rightarrow> Inl ex
               | Inr a \<Rightarrow> Inr \<lparr> answer = a, sources = format_sources kb [],
                                confidence = calculate_confidence kb, used_web_search = False \<rparr>)"
    by (simp add: query_def kb generate_response_def Let_def split: sum.splits)
next
  show "\<forall>s\<in>set (format_sources kb []). source_type s = ''knowledge_base''"
    by (auto simp: format_sources_def foldl_append_each py_slice_prefix Let_def)
next
  assume ok: "fst (query e self q use_search k th) = Inr r"
  then show "used_web_search r \<longleftrightarrow>
               use_search \<and> should_use_search kb th \<and>
               (\<exists>results. tavily_client_search e q (max_results (web_search self)) = Inr (Some results)
                   \<and> results \<noteq> [])"
    unfolding search_results_empty_iff[symmetric]
    by (auto simp: query_def kb generate_response_def Let_def split: sum.splits if_splits)
next
  assume ok: "fst (query e self q use_search k th) = Inr r" and no: "\<not> used_web_search r"
  then have "sources r = format_sources kb []"
    by (auto simp: query_def kb generate_response_def Let_def split: sum.splits if_splits)
  then show "\<forall>s\<in>set (sources r). source_type s = ''knowledge_base''"
    by (auto simp: format_sources_def foldl_append_each py_slice_prefix Let_def)
next
  assume "fst (query e self q use_search k th) = Inl ex"
  then show "\<exists>messages. chat_completions_create e messages = Inl ex"
    by (auto simp: query_def kb generate_response_def Let_def split: sum.splits)
qed

theorem query_search_best_effort_witness:
  "vector_store_search
     \<lparr>vector_store_search = (\<lambda>q k. Inr []),
      tavily_client_search = (\<lambda>q m. Inl (Exception ''timeout'')),
      chat_completions_create = (\<lambda>m. Inr ''answer''),
      chat_completions_stream = (\<lambda>m. ([], None))\<rparr> ''q'' 5 = Inr [] \<and>
   tavily_client_search
     \<lparr>vector_store_search = (\<lambda>q k. Inr []),
      tavily_client_search = (\<lambda>q m. Inl (Exception ''timeout'')),
      chat_completions_create = (\<lambda>m. Inr ''answer''),
      chat_completions_stream = (\<lambda>m. ([], None))\<rparr> ''q'' 5 = Inl (Exception ''timeout'') \<and>
   should_use_search [] (7 / 10) \<and>
   fst (query
     \<lparr>vector_store_search = (\<lambda>q k. Inr []),
      tavily_client_search = (\<lambda>q m. Inl (Exception ''timeout'')),
      chat_completions_create = (\<lambda>m. Inr ''answer''),
      chat_completions_stream = (\<lambda>m. ([], None))\<rparr>
     \<lparr>web_search = \<lparr>max_results = 5\<rparr>\<rparr> ''q'' True 5 (7 / 10))
   = Inr \<lparr>answer = ''answer'', sources = [], confidence = 0, used_web_search = False\<rparr>"
proof -
  let ?e = "\<lparr>vector_store_search = (\<lambda>q k. Inr []),
      tavily_client_search = (\<lambda>q m. Inl (Exception ''timeout'')),
      chat_completions_create = (\<lambda>m. Inr ''answer''),
      chat_completions_stream = (\<lambda>m. ([], None))\<rparr>"
  let ?self = "\<lparr>web_search = \<lparr>max_results = 5\<rparr>\<rparr>"
  have kb: "vector_store_search ?e ''q'' 5 = Inr []" by simp
  have fails: "tavily_client_search ?e ''q'' (max_results (web_search ?self)) = Inl (Exception ''timeout'')"
    by simp
  have gate: "should_use_search [] (7 / 10)" by (simp add: should_use_search_def)
  have no_sources: "format_sources [] [] = []"
    by (simp add: format_sources_def py_slice_def py_index_def)
  have conf: "calculate_confidence [] = 0" by (simp add: calculate_confidence_def)
  from query_search_best_effort[OF kb, where self = ?self and err = "Exception ''timeout''"
      and use_search = True and th = "7 / 10"] fails
  have "fst (query ?e ?self ''q'' True 5 (7 / 10))
      = Inr \<lparr>answer = ''answer'', sources = [], confidence = 0, used_web_search = False\<rparr>"
    by (simp add: no_sources conf)
  with kb fails gate show ?thesis by simp
qed

section \<open>One prompt for both paths\<close>

lemma map_filter_append: "List.map_filter f (xs @ ys) = List.map_filter f xs @ List.map_filter f ys"
  by (simp add: List.map_filter_def)

lemma snd_case_sum: "snd (case x of Inl a \<Rightarrow> (f a, c) | Inr b \<Rightarrow> (g b, c)) = c"
  by (cases x) simp_all

text \<open>
  Claim C9. With the same collaborators and the same arguments, \<open>query\<close> and
  \<open>query_stream\<close> make the same calls in the same order, and differ only in the
  \<open>stream\<close> flag of the generation call; in particular they pass the same messages to
  it: after a successful retrieval, one generation call each, on the same prompt.
\<close>

theorem query_stream_same_prompt:
  "List.map_filter prompt_of (snd (query e self q use_search k th))
     = List.map_filter prompt_of (snd (query_stream e self q use_search k th)) \<and>
   map without_stream_flag (snd (query e self q use_search k th))
     = map without_stream_flag (snd (query_stream e self q use_search k th)) \<and>
   (vector_store_search e q k = Inr kb \<longrightarrow>
      List.map_filter prompt_of (snd (query e self q use_search k th))
        = [create_prompt q kb
             (if use_search \<and> should_use_search kb th \<and> fst (search e (web_search self) q None) \<noteq> []
              then Some (format_search_results_for_context (fst (search e (web_search self) q None)))
              else None)] \<and>
      List.map_filter prompt_of (snd (query_stream e self q use_search k th))
        = [create_prompt q kb
             (if use_search \<and> should_use_search kb th \<and> fst (search e (web_search self) q None) \<noteq> []
              then Some (format_search_results_for_context (fst (search e (web_search self) q None)))
              else None)])"
proof (cases "vector_store_search e q k")
  case (Inl err)
  then show ?thesis
    by (simp add: query_def query_stream_def)
next
  case (Inr kb')
  let ?gate = "use_search \<and> should_use_search kb' th"
  let ?searched = "if ?gate then search e (web_search self) q None else ([], [])"
  let ?ctx = "if ?gate \<and> fst ?searched \<noteq> []
              then Some (format_search_results_for_context (fst ?searched)) else None"
  let ?ctx' = "if use_search \<and> should_use_search kb' th \<and> fst (search e (web_search self) q None) \<noteq> []
              then Some (format_search_results_for_context (fst (search e (web_search self) q None)))
              else None"
  have ctx: "?ctx = ?ctx'" by (cases ?gate) simp_all
  have calls: "snd (query e self q use_search k th)
      = VectorStoreSearch q k # snd ?searched @ [ChatCompletion (create_prompt q kb' ?ctx) False]"
    by (simp add: query_def Inr generate_response_def Let_def snd_case_sum del: if_split)
  have calls_stream: "snd (query_stream e self q use_search k th)
      = VectorStoreSearch q k # snd ?searched @ [ChatCompletion (create_prompt q kb' ?ctx) True]"
    by (simp add: query_stream_def Inr generate_response_stream_def Let_def del: if_split)
  have no_prompt: "List.map_filter prompt_of (snd ?searched) = []"
    by (simp add: search_def Let_def)
  have prompts: "List.map_filter prompt_of (snd (query e self q use_search k th))
      = [create_prompt q kb' ?ctx']"
    unfolding calls ctx by (simp add: map_filter_append no_prompt del: if_split)
  have prompts_stream: "List.map_filter prompt_of (snd (query_stream e self q use_search k th))
      = [create_prompt q kb' ?ctx']"
    unfolding calls_stream ctx by (simp add: map_filter_append no_prompt del: if_split)
  have flags: "map without_stream_flag (snd (query e self q use_search k th))
      = map without_stream_flag (snd (query_stream e self q use_search k th))"
    unfolding calls calls_stream by simp
  show ?thesis
  proof (intro conjI impI)
    show "List.map_filter prompt_of (snd (query e self q use_search k th))
        = List.map_filter prompt_of (snd (query_stream e self q use_search k th))"
      by (simp only: prompts prompts_stream)
    show "map without_stream_flag (snd (query e self q use_search k th))
        = map without_stream_flag (snd (query_stream e self q use_search k th))"
      by (rule flags)
  next
    assume "vector_store_search e q k = Inr kb"
    with Inr have kb: "kb' = kb" by simp
    show "List.map_filter prompt_of (snd (query e self q use_search k th))
        = [create_prompt q kb
             (if use_search \<and> should_use_search kb th \<and> fst (search e (web_search self) q None) \<noteq> []
              then Some (format_search_results_for_context (fst (search e (web_search self) q None)))
              else None)]"
      using prompts unfolding kb .
  next
    assume "vector_store_search e q k = Inr kb"
    with Inr have kb: "kb' = kb" by simp
    show "List.map_filter prompt_of (snd (query_stream e self q use_search k th))
        = [create_prompt q kb
             (if use_search \<and> should_use_search kb th \<and> fst (search e (web_search self) q None) \<noteq> []
              then Some (format_search_results_for_context (fst (search e (web_search self) q None)))
              else None)]"
      using prompts_stream unfolding kb .
  qed
qed

theorem query_stream_same_prompt_witness:
  "vector_store_search
     \<lparr>vector_store_search = (\<lambda>q k. Inr []),
      tavily_client_search = (\<lambda>q m. Inr (Some [\<lparr>title_opt = Some ''T'', url_opt = Some ''u'',
                                                 content_opt = Some ''c'', score_opt = Some (1 / 2)\<rparr>])),
      chat_completions_create = (\<lambda>m. Inr ''answer''),
      chat_completions_stream = (\<lambda>m. ([Some ''ans'', None, Some ''wer''], None))\<rparr> ''q'' 5 = Inr [] \<and>
   List.map_filter prompt_of (snd (query
     \<lparr>vector_store_search = (\<lambda>q k. Inr []),
      tavily_client_search = (\<lambda>q m. Inr (Some [\<lparr>title_opt = Some ''T'', url_opt = Some ''u'',
                                                 content_opt = Some ''c'', score_opt = Some (1 / 2)\<rparr>])),
      chat_completions_create = (\<lambda>m. Inr ''answer''),
      chat_completions_stream = (\<lambda>m. ([Some ''ans'', None, Some ''wer''], None))\<rparr>
     \<lparr>web_search = \<lparr>max_results = 5\<rparr>\<rparr> ''q'' True 5 (7 / 10)))
   = List.map_filter prompt_of (snd (query_stream
     \<lparr>vector_store_search = (\<lambda>q k. Inr []),
      tavily_client_search = (\<lambda>q m. Inr (Some [\<lparr>title_opt = Some ''T'', url_opt = Some ''u'',
                                                 content_opt = Some ''c'', score_opt = Some (1 / 2)\<rparr>])),
      chat_completions_create = (\<lambda>m. Inr ''answer''),
      chat_completions_stream = (\<lambda>m. ([Some ''ans'', None, Some ''wer''], None))\<rparr>
     \<lparr>web_search = \<lparr>max_results = 5\<rparr>\<rparr> ''q'' True 5 (7 / 10))) \<and>
   length (List.map_filter prompt_of (snd (query_stream
     \<lparr>vector_store_search = (\<lambda>q k. Inr []),
      tavily_client_search = (\<lambda>q m. Inr (Some [\<lparr>title_opt = Some ''T'', url_opt = Some ''u'',
                                                 content_opt = Some ''c'', score_opt = Some (1 / 2)\<rparr>])),
      chat_completions_create = (\<lambda>m. Inr ''answer''),
      chat_completions_stream = (\<lambda>m. ([Some ''ans'', None, Some ''wer''], None))\<rparr>
     \<lparr>web_search = \<lparr>max_results = 5\<rparr>\<rparr> ''q'' True 5 (7 / 10)))) = 1 \<and>
   fst (query_stream
     \<lparr>vector_store_search = (\<lambda>q k. Inr []),
      tavily_client_search = (\<lambda>q m. Inr (Some [\<lparr>title_opt = Some ''T'', url_opt = Some ''u'',
                                                 content_opt = Some ''c'', score_opt = Some (1 / 2)\<rparr>])),
      chat_completions_create = (\<lambda>m. Inr ''answer''),
      chat_completions_stream = (\<lambda>m. ([Some ''ans'', None, Some ''wer''], None))\<rparr>
     \<lparr>web_search = \<lparr>max_results = 5\<rparr>\<rparr> ''q'' True 5 (7 / 10)) = ([''ans'', ''wer''], None)"
proof -
  let ?e = "\<lparr>vector_store_search = (\<lambda>q k. Inr []),
      tavily_client_search = (\<lambda>q m. Inr (Some [\<lparr>title_opt = Some ''T'', url_opt = Some ''u'',
                                                 content_opt = Some ''c'', score_opt = Some (1 / 2)\<rparr>])),
      chat_completions_create = (\<lambda>m. Inr ''answer''),
      chat_completions_stream = (\<lambda>m. ([Some ''ans'', None, Some ''wer''], None))\<rparr>"
  let ?self = "\<lparr>web_search = \<lparr>max_results = 5\<rparr>\<rparr>"
  have kb: "vector_store_search ?e ''q'' 5 = Inr []" by simp
  have stream: "fst (query_stream ?e ?self ''q'' True 5 (7 / 10)) = ([''ans'', ''wer''], None)"
    by (simp add: query_stream_def generate_response_stream_def Let_def List.map_filter_def)
  from query_stream_same_prompt[of ?e ?self "''q''" True 5 "7 / 10" "[]"] kb
  have "List.map_filter prompt_of (snd (query ?e ?self ''q'' True 5 (7 / 10)))
      = List.map_filter prompt_of (snd (query_stream ?e ?self ''q'' True 5 (7 / 10)))"
    and "length (List.map_filter prompt_of (snd (query_stream ?e ?self ''q'' True 5 (7 / 10)))) = 1"
    by auto
  with kb stream show ?thesis by blast
qed

section \<open>Computing with concrete floats\<close>

text \<open>
  The floats written \<open>0.4\<close>, \<open>0.7\<close>, \<open>0.8\<close>, \<open>0.85\<close>, \<open>0.57\<close> and \<open>0.609\<close> are the
  binary64 numbers nearest to these decimals; they appear below with their exact
  values, as fractions with a power of two as denominator.
\<close>

lemma score_at_0_4:
  "float_sub 1 (float_div (3602879701896397 / 9007199254740992) 2)
     = 3602879701896397 / 4503599627370496"
proof -
  have half: "float_div (3602879701896397 / 9007199254740992) 2
      = 3602879701896397 / 18014398509481984"
    unfolding float_div_def
    using float_round_below_one[of "3602879701896397 / 9007199254740992 / 2" 2]
    by (simp add: round_half_even_def Let_def)
  show ?thesis
    unfolding half float_sub_def
    using float_round_below_one[of "1 - 3602879701896397 / 18014398509481984" 0]
    by (simp add: round_half_even_def Let_def)
qed

lemma score_at_0_85:
  "float_sub 1 (float_div (7656119366529843 / 9007199254740992) 2)
     = 2589569785738035 / 4503599627370496"
proof -
  have half: "float_div (7656119366529843 / 9007199254740992) 2
      = 7656119366529843 / 18014398509481984"
    unfolding float_div_def
    using float_round_below_one[of "7656119366529843 / 9007199254740992 / 2" 1]
    by (simp add: round_half_even_def Let_def)
  show ?thesis
    unfolding half float_sub_def
    using float_round_below_one[of "1 - 7656119366529843 / 18014398509481984" 0]
    by (simp add: round_half_even_def Let_def)
qed

lemma round_at_0_85:
  "py_round (2589569785738035 / 4503599627370496) 2 = 5134103575202365 / 9007199254740992"
proof -
  have "round_half_even (2589569785738035 / 4503599627370496 * 10 ^ 2) = 57"
    by (simp add: round_half_even_def Let_def)
  then show ?thesis
    unfolding py_round_def
    using float_round_below_one[of "57 / 100" 0]
    by (simp add: round_half_even_def Let_def)
qed

lemma score_at_0_609:
  "float_sub 1 (float_div (342836521633579 / 562949953421312) 2)
     = 783063385209045 / 1125899906842624"
proof -
  have half: "float_div (342836521633579 / 562949953421312) 2
      = 342836521633579 / 1125899906842624"
    unfolding float_div_def
    using float_round_below_one[of "342836521633579 / 562949953421312 / 2" 1]
    by (simp add: round_half_even_def Let_def)
  show ?thesis
    unfolding half float_sub_def
    using float_round_below_one[of "1 - 342836521633579 / 1125899906842624" 0]
    by (simp add: round_half_even_def Let_def)
qed

lemma round_at_0_609:
  "py_round (783063385209045 / 1125899906842624) 2 = 3152519739159347 / 4503599627370496"
proof -
  have "round_half_even (783063385209045 / 1125899906842624 * 10 ^ 2) = 70"
    by (simp add: round_half_even_def Let_def)
  then show ?thesis
    unfolding py_round_def
    using float_round_below_one[of "70 / 100" 0]
    by (simp add: round_half_even_def Let_def)
qed

lemma float_round_half: "float_round (1 / 2) = 1 / 2"
  using float_round_below_one[of "1 / 2" 0] by (simp add: round_half_even_def Let_def)

lemma float_round_three_halves: "float_round (3 / 2) = 3 / 2"
  using float_round_from_one[of 0 "3 / 2"] by (simp add: round_half_even_def Let_def)

lemma score_at_0: "float_sub 1 (float_div 0 2) = 1"
  by (simp add: float_sub_def float_div_def float_round_zero float_round_one)

lemma score_at_1: "float_sub 1 (float_div 1 2) = 1 / 2"
  by (simp add: float_sub_def float_div_def float_round_half)

lemma score_at_2: "float_sub 1 (float_div 2 2) = 0"
  by (simp add: float_sub_def float_div_def float_round_zero float_round_one)

lemma score_at_3: "float_sub 1 (float_div 3 2) = - (1 / 2)"
proof -
  have "float_round (- (1 / 2)) = - (1 / 2)"
    by (simp only: float_round_minus float_round_half)
  then show ?thesis
    by (simp add: float_sub_def float_div_def float_round_three_halves)
qed

lemma round_at_half: "py_round (1 / 2) 2 = 1 / 2"
proof -
  have "round_half_even (1 / 2 * 10 ^ 2) = 50" by (simp add: round_half_even_def Let_def)
  then show ?thesis unfolding py_round_def by (simp add: float_round_half)
qed

text \<open>The score \<open>1.0 - distance / 2.0\<close> does not grow with the distance.\<close>

lemma score_antimono:
  assumes "d \<le> d'"
  shows "float_sub 1 (float_div d' 2) \<le> float_sub 1 (float_div d 2)"
proof -
  from assms have "d / 2 \<le> d' / 2" by simp
  then have "float_round (d / 2) \<le> float_round (d' / 2)" by (rule float_round_mono)
  then have "1 - float_round (d' / 2) \<le> 1 - float_round (d / 2)" by simp
  then show ?thesis unfolding float_sub_def float_div_def by (rule float_round_mono)
qed

section \<open>The search gate\<close>

text \<open>
  Claim C3, as the code has it. The search gate is true for an empty result list; otherwise it
  compares the float \<open>1.0 - distance / 2.0\<close> of the top result with the threshold,
  strictly: the value is neither clamped nor rounded to two decimals, and a missing
  distance is read as \<open>1.0\<close>. For a threshold in \<open>(0, 1]\<close> the comparison gives the same
  as the comparison of the clamped, unrounded value \<open>max(0.0, min(1.0, 1.0 - distance /
  2.0))\<close>; it is not the comparison of the rounded response confidence. The search gate is
  true on the empty list for every threshold, and a single result at distance \<open>0.4\<close>
  (score \<open>0.8\<close>) closes it for the threshold \<open>0.7\<close> and opens it for \<open>0.85\<close>.
\<close>

theorem should_use_search_iff:
  "should_use_search [] t \<and>
   (should_use_search (r # rs) t \<longleftrightarrow>
      float_sub 1 (float_div (dict_default (distance r) 1) 2) < t) \<and>
   (0 < t \<and> t \<le> 1 \<longrightarrow>
      (should_use_search (r # rs) t \<longleftrightarrow>
         max 0 (min 1 (float_sub 1 (float_div (dict_default (distance r) 1) 2))) < t)) \<and>
   (distance r = Some (3602879701896397 / 9007199254740992) \<longrightarrow>
      \<not> should_use_search [r] (3152519739159347 / 4503599627370496) \<and>
      should_use_search [r] (7656119366529843 / 9007199254740992))"
proof (intro conjI impI)
  show "should_use_search [] t" by (simp add: should_use_search_def)
  show gate: "should_use_search (r # rs) t \<longleftrightarrow>
      float_sub 1 (float_div (dict_default (distance r) 1) 2) < t"
    by (simp add: should_use_search_def Let_def)
  show "should_use_search (r # rs) t \<longleftrightarrow>
         max 0 (min 1 (float_sub 1 (float_div (dict_default (distance r) 1) 2))) < t"
    if "0 < t \<and> t \<le> 1"
    using that unfolding gate by (auto simp: max_def min_def)
next
  assume d: "distance r = Some (3602879701896397 / 9007199254740992)"
  then show "\<not> should_use_search [r] (3152519739159347 / 4503599627370496)"
    by (simp add: should_use_search_def Let_def dict_default_def score_at_0_4)
  from d show "should_use_search [r] (7656119366529843 / 9007199254740992)"
    by (simp add: should_use_search_def Let_def dict_default_def score_at_0_4)
qed

theorem should_use_search_iff_witness:
  "distance \<lparr>content_kb = None, metadata_kb = None,
              distance = Some (3602879701896397 / 9007199254740992), id_kb = None\<rparr>
     = Some (3602879701896397 / 9007199254740992) \<and>
   (0::real) < 3152519739159347 / 4503599627370496 \<and>
   (3152519739159347 / 4503599627370496 :: real) \<le> 1 \<and>
   \<not> max 0 (min 1 (float_sub 1 (float_div (3602879701896397 / 9007199254740992) 2)))
       < 3152519739159347 / 4503599627370496 \<and>
   \<not> should_use_search [\<lparr>content_kb = None, metadata_kb = None,
        distance = Some (3602879701896397 / 9007199254740992), id_kb = None\<rparr>]
       (3152519739159347 / 4503599627370496) \<and>
   should_use_search [\<lparr>content_kb = None, metadata_kb = None,
        distance = Some (3602879701896397 / 9007199254740992), id_kb = None\<rparr>]
       (7656119366529843 / 9007199254740992)"
  using should_use_search_iff[of "3152519739159347 / 4503599627370496"
      "\<lparr>content_kb = None, metadata_kb = None,
        distance = Some (3602879701896397 / 9007199254740992), id_kb = None\<rparr>" "[]"]
  by (simp add: dict_default_def score_at_0_4)

text \<open>
  Claim C3 as the specification states it, with the score of the Confidence Scorer,
  fails. For a top result at distance \<open>3\<close> the score, whether only clamped or also
  rounded, is \<open>0\<close>, which is not below the threshold \<open>0\<close>, yet the search gate opens, because
  it compares the unclamped \<open>-0.5\<close>. For a top result at distance \<open>0.609\<close> the response
  confidence is \<open>0.7\<close>, which is not below the threshold \<open>0.7\<close>, yet the search gate opens,
  because it compares the unrounded \<open>0.6955\<close>.
\<close>

theorem should_use_search_not_clamped:
  "should_use_search [\<lparr>content_kb = None, metadata_kb = None, distance = Some 3, id_kb = None\<rparr>] 0 \<and>
   \<not> max 0 (min 1 (float_sub 1 (float_div 3 2))) < (0::real) \<and>
   \<not> calculate_confidence [\<lparr>content_kb = None, metadata_kb = None, distance = Some 3, id_kb = None\<rparr>] < 0 \<and>
   should_use_search [\<lparr>content_kb = None, metadata_kb = None,
        distance = Some (342836521633579 / 562949953421312), id_kb = None\<rparr>]
       (3152519739159347 / 4503599627370496) \<and>
   calculate_confidence [\<lparr>content_kb = None, metadata_kb = None,
        distance = Some (342836521633579 / 562949953421312), id_kb = None\<rparr>]
     = 3152519739159347 / 4503599627370496"
  by (simp add: should_use_search_def calculate_confidence_def dict_default_def Let_def
        score_at_3 score_at_0_609 round_at_0_609 py_round_zero)

section \<open>The response confidence\<close>

lemma clamp_mono: "a \<le> b \<Longrightarrow> max 0 (min 1 a) \<le> max (0::real) (min 1 b)"
  by (simp add: max_def min_def)

lemma py_round_unit_grid:
  assumes "0 \<le> z" and "z \<le> 1"
  shows "\<exists>k::int. 0 \<le> k \<and> k \<le> 100 \<and> py_round z 2 = float_round (of_int k / 100)"
proof -
  have "round_half_even (of_int 0) \<le> round_half_even (z * 10 ^ 2)"
    by (rule round_half_even_mono) (use assms in simp)
  then have lo: "0 \<le> round_half_even (z * 10 ^ 2)"
    by (simp only: round_half_even_of_int)
  have "round_half_even (z * 10 ^ 2) \<le> round_half_even (of_int 100)"
    by (rule round_half_even_mono) (use assms in simp)
  then have hi: "round_half_even (z * 10 ^ 2) \<le> 100"
    by (simp only: round_half_even_of_int)
  have "py_round z 2 = float_round (of_int (round_half_even (z * 10 ^ 2)) / 100)"
    by (simp add: py_round_def)
  with lo hi show ?thesis by blast
qed

lemma confidence_surfaced:
  assumes "vector_store_search e q k = Inr kb"
    and "fst (query e self q use_search k th) = Inr response"
  shows "confidence response = calculate_confidence kb"
  using assms by (auto simp: query_def Let_def split: sum.splits)

text \<open>
  Claim C4. For a non-empty retrieval list whose top result has distance \<open>d\<close> the response
  confidence is \<open>round(max(0.0, min(1.0, 1.0 - d / 2.0)), 2)\<close>, every operation being
  the binary64 one: it is the float nearest to \<open>k / 100\<close> for an integer \<open>k\<close> from 0 to
  100, it lies between 0 and 1, it does not increase when \<open>d\<close> grows, it is 1 at
  distance 0 and 0 at distances 2 and 3; and this rounded value is the \<open>confidence\<close> of
  the response \<open>query\<close> returns. At the float \<open>0.85\<close> the subtraction rounds
  \<open>0.575000000000000011\<close> down to \<open>0.574999999999999956\<close>, so the confidence is \<open>0.57\<close>.
\<close>

theorem calculate_confidence_top_distance:
  "(distance r = Some d \<longrightarrow>
      calculate_confidence (r # rs) = py_round (max 0 (min 1 (float_sub 1 (float_div d 2)))) 2 \<and>
      (\<exists>k::int. 0 \<le> k \<and> k \<le> 100 \<and> calculate_confidence (r # rs) = float_round (of_int k / 100)) \<and>
      0 \<le> calculate_confidence (r # rs) \<and> calculate_confidence (r # rs) \<le> 1) \<and>
   (distance r = Some d \<and> distance r' = Some d' \<and> d \<le> d' \<longrightarrow>
      calculate_confidence (r' # rs') \<le> calculate_confidence (r # rs)) \<and>
   (distance r = Some 0 \<longrightarrow> calculate_confidence (r # rs) = 1) \<and>
   (distance r = Some 2 \<longrightarrow> calculate_confidence (r # rs) = 0) \<and>
   (distance r = Some 3 \<longrightarrow> calculate_confidence (r # rs) = 0) \<and>
   (distance r = Some (7656119366529843 / 9007199254740992) \<longrightarrow>
      calculate_confidence (r # rs) = 5134103575202365 / 9007199254740992) \<and>
   (vector_store_search e q k = Inr (r # rs) \<and> fst (query e self q use_search k th) = Inr response \<longrightarrow>
      confidence response = calculate_confidence (r # rs))"
proof -
  let ?clamp = "\<lambda>x::real. max 0 (min 1 (float_sub 1 (float_div x 2)))"
  have eq: "calculate_confidence (p # ps) = py_round (?clamp x) 2"
    if "distance p = Some x" for p ps x
    using that by (simp add: calculate_confidence_def dict_default_def Let_def)
  have range: "0 \<le> ?clamp x \<and> ?clamp x \<le> 1" for x
    by (simp add: max_def min_def)
  have lo: "0 \<le> py_round (?clamp x) 2" for x
    using py_round_mono[of 0 "?clamp x" 2] range[of x] by (simp add: py_round_zero)
  have hi: "py_round (?clamp x) 2 \<le> 1" for x
    using py_round_mono[of "?clamp x" 1 2] range[of x] by (simp add: py_round_one)
  have grid: "\<exists>k::int. 0 \<le> k \<and> k \<le> 100 \<and> py_round (?clamp x) 2 = float_round (of_int k / 100)" for x
    using py_round_unit_grid[of "?clamp x"] range[of x] by blast
  have mono: "py_round (?clamp y) 2 \<le> py_round (?clamp x) 2" if "x \<le> y" for x y
    using that by (intro py_round_mono clamp_mono score_antimono)
  have c1: "distance r = Some d \<longrightarrow>
      calculate_confidence (r # rs) = py_round (?clamp d) 2 \<and>
      (\<exists>k::int. 0 \<le> k \<and> k \<le> 100 \<and> calculate_confidence (r # rs) = float_round (of_int k / 100)) \<and>
      0 \<le> calculate_confidence (r # rs) \<and> calculate_confidence (r # rs) \<le> 1"
    using grid[of d] lo[of d] hi[of d] by (simp add: eq)
  have c2: "distance r = Some d \<and> distance r' = Some d' \<and> d \<le> d' \<longrightarrow>
      calculate_confidence (r' # rs') \<le> calculate_confidence (r # rs)"
    using mono[of d d'] by (simp add: eq)
  have c3: "distance r = Some 0 \<longrightarrow> calculate_confidence (r # rs) = 1"
    by (simp add: eq score_at_0 py_round_one)
  have c4: "distance r = Some 2 \<longrightarrow> calculate_confidence (r # rs) = 0"
    by (simp add: eq score_at_2 py_round_zero)
  have c5: "distance r = Some 3 \<longrightarrow> calculate_confidence (r # rs) = 0"
    by (simp add: eq score_at_3 py_round_zero)
  have c6: "distance r = Some (7656119366529843 / 9007199254740992) \<longrightarrow>
      calculate_confidence (r # rs) = 5134103575202365 / 9007199254740992"
  proof
    assume "distance r = Some (7656119366529843 / 9007199254740992)"
    then have "calculate_confidence (r # rs)
        = py_round (?clamp (7656119366529843 / 9007199254740992)) 2"
      by (rule eq)
    also have "?clamp (7656119366529843 / 9007199254740992) = 2589569785738035 / 4503599627370496"
      unfolding score_at_0_85 by simp
    finally show "calculate_confidence (r # rs) = 5134103575202365 / 9007199254740992"
      by (simp only: round_at_0_85)
  qed
  have c7: "vector_store_search e q k = Inr (r # rs) \<and> fst (query e self q use_search k th) = Inr response \<longrightarrow>
      confidence response = calculate_confidence (r # rs)"
    using confidence_surfaced[of e q k "r # rs" self use_search th response] by blast
  from c1 c2 c3 c4 c5 c6 c7 show ?thesis by blast
qed

theorem calculate_confidence_top_distance_witness:
  "calculate_confidence [\<lparr>content_kb = None, metadata_kb = None, distance = Some 0, id_kb = None\<rparr>] = 1 \<and>
   calculate_confidence [\<lparr>content_kb = None, metadata_kb = None, distance = Some 2, id_kb = None\<rparr>] = 0 \<and>
   calculate_confidence [\<lparr>content_kb = None, metadata_kb = None, distance = Some 3, id_kb = None\<rparr>] = 0 \<and>
   (7656119366529843 / 9007199254740992 :: real) \<le> 1 \<and>
   calculate_confidence [\<lparr>content_kb = None, metadata_kb = None, distance = Some 1, id_kb = None\<rparr>]
     \<le> calculate_confidence [\<lparr>content_kb = None, metadata_kb = None,
          distance = Some (7656119366529843 / 9007199254740992), id_kb = None\<rparr>] \<and>
   calculate_confidence [\<lparr>content_kb = None, metadata_kb = None, distance = Some 1, id_kb = None\<rparr>] = 1 / 2 \<and>
   calculate_confidence [\<lparr>content_kb = None, metadata_kb = None,
          distance = Some (7656119366529843 / 9007199254740992), id_kb = None\<rparr>]
     = 5134103575202365 / 9007199254740992 \<and>
   (\<exists>k::int. 0 \<le> k \<and> k \<le> 100 \<and>
      calculate_confidence [\<lparr>content_kb = None, metadata_kb = None,
          distance = Some (7656119366529843 / 9007199254740992), id_kb = None\<rparr>]
        = float_round (of_int k / 100)) \<and>
   fst (query
     \<lparr>vector_store_search =
        (\<lambda>q k. Inr [\<lparr>content_kb = None, metadata_kb = None,
                       distance = Some (7656119366529843 / 9007199254740992), id_kb = None\<rparr>]),
      tavily_client_search = (\<lambda>q m. Inr None),
      chat_completions_create = (\<lambda>m. Inr ''answer''),
      chat_completions_stream = (\<lambda>m. ([], None))\<rparr>
     \<lparr>web_search = \<lparr>max_results = 5\<rparr>\<rparr> ''q'' True 5 (3152519739159347 / 4503599627370496))
   = Inr \<lparr>answer = ''answer'',
          sources = [KnowledgeBaseSource (PStr ''Unknown'') (PStr ''N/A'') (PStr ''N/A'')
                       (5134103575202365 / 9007199254740992)],
          confidence = 5134103575202365 / 9007199254740992, used_web_search = False\<rparr>"
proof -
  let ?r = "\<lparr>content_kb = None, metadata_kb = None,
          distance = Some (7656119366529843 / 9007199254740992 :: real), id_kb = None\<rparr>"
  let ?at = "\<lambda>x::real. \<lparr>content_kb = None, metadata_kb = None, distance = Some x, id_kb = None\<rparr>"
  let ?e = "\<lparr>vector_store_search = (\<lambda>q k. Inr [?r]),
      tavily_client_search = (\<lambda>q m. Inr None),
      chat_completions_create = (\<lambda>m. Inr ''answer''),
      chat_completions_stream = (\<lambda>m. ([], None))\<rparr>"
  let ?self = "\<lparr>web_search = \<lparr>max_results = 5\<rparr>\<rparr>"
  let ?response = "\<lparr>answer = ''answer'',
          sources = [KnowledgeBaseSource (PStr ''Unknown'') (PStr ''N/A'') (PStr ''N/A'')
                       (5134103575202365 / 9007199254740992)],
          confidence = 5134103575202365 / 9007199254740992, used_web_search = False\<rparr>"
  have run: "fst (query ?e ?self ''q'' True 5 (3152519739159347 / 4503599627370496)) = Inr ?response"
    by (simp add: query_def generate_response_def should_use_search_def calculate_confidence_def
          format_sources_def search_def py_slice_def py_index_def dict_default_def dict_get_def
          Let_def score_at_0_85 round_at_0_85)
  have one: "calculate_confidence [?at 1] = 1 / 2"
    by (simp add: calculate_confidence_def dict_default_def Let_def score_at_1 round_at_half)
  have zero: "calculate_confidence [?at 0] = 1"
    using calculate_confidence_top_distance[where r = "?at 0" and rs = "[]"] by simp
  have two: "calculate_confidence [?at 2] = 0"
    using calculate_confidence_top_distance[where r = "?at 2" and rs = "[]"] by simp
  have three: "calculate_confidence [?at 3] = 0"
    using calculate_confidence_top_distance[where r = "?at 3" and rs = "[]"] by simp
  have le: "(7656119366529843 / 9007199254740992 :: real) \<le> 1" by simp
  have dist: "distance ?r = Some (7656119366529843 / 9007199254740992)" by simp
  have dist1: "distance (?at 1) = Some 1" by simp
  note at_r = calculate_confidence_top_distance[where r = ?r and d = "7656119366529843 / 9007199254740992"
      and rs = "[]" and r' = "?at 1" and d' = 1 and rs' = "[]" and e = ?e and q = "''q''" and k = 5
      and self = ?self and use_search = True and th = "3152519739159347 / 4503599627370496"
      and response = ?response]
  note c1 = at_r[THEN conjunct1, THEN mp, OF dist]
  note grid = c1[THEN conjunct2, THEN conjunct1]
  note mono = at_r[THEN conjunct2, THEN conjunct1, THEN mp, OF conjI[OF dist conjI[OF dist1 le]]]
  note val = at_r[THEN conjunct2, THEN conjunct2, THEN conjunct2, THEN conjunct2, THEN conjunct2,
      THEN conjunct1, THEN mp, OF dist]
  show ?thesis
    by (intro conjI zero two three le mono one val grid run)
qed

section \<open>The source list\<close>

text \<open>
  Claim C5. The source list is the first three passages (all of them when there are
  fewer), in retrieval order, as \<open>knowledge_base\<close> entries with relevance score
  \<open>round(1.0 - distance / 2.0, 2)\<close>, every operation being the binary64 one, followed by
  the first three web results, in input order, as \<open>web_search\<close> entries that carry the
  result's score unchanged; it has \<open>min 3 |kb| + min 3 |web|\<close> entries, at most 6, and
  every \<open>knowledge_base\<close> entry comes before every \<open>web_search\<close> entry. (A passage
  without a distance is scored as at distance \<open>1.0\<close>.)
\<close>

theorem format_sources_composition:
  "format_sources kb_results search_sources =
     map (\<lambda>result. KnowledgeBaseSource
            (dict_get (dict_default (metadata_kb result) []) ''filename'' (PStr ''Unknown''))
            (dict_get (dict_default (metadata_kb result) []) ''page_number'' (PStr ''N/A''))
            (dict_get (dict_default (metadata_kb result) []) ''chunk_number'' (PStr ''N/A''))
            (py_round (float_sub 1 (float_div (dict_default (distance result) 1) 2)) 2))
         (take 3 kb_results)
     @ map (\<lambda>s. WebSearchSource (dict_default (title_opt s) ''No title'')
                   (dict_default (url_opt s) []) (dict_default (score_opt s) 0))
           (take 3 search_sources) \<and>
   length (format_sources kb_results search_sources)
     = min 3 (length kb_results) + min 3 (length search_sources) \<and>
   length (format_sources kb_results search_sources) \<le> 6 \<and>
   (\<forall>i < length (format_sources kb_results search_sources).
      source_type (format_sources kb_results search_sources ! i)
        = (if i < min 3 (length kb_results) then ''knowledge_base'' else ''web_search'')) \<and>
   (\<forall>i < min 3 (length kb_results). distance (kb_results ! i) = Some d \<longrightarrow>
      relevance_score (format_sources kb_results search_sources ! i)
        = py_round (float_sub 1 (float_div d 2)) 2) \<and>
   (\<forall>j < min 3 (length search_results).
      format_sources kb_results (map to_dict search_results) ! (min 3 (length kb_results) + j)
        = WebSearchSource (title (search_results ! j)) (url (search_results ! j))
            (score (search_results ! j)))"
proof -
  let ?kb = "\<lambda>result. KnowledgeBaseSource
            (dict_get (dict_default (metadata_kb result) []) ''filename'' (PStr ''Unknown''))
            (dict_get (dict_default (metadata_kb result) []) ''page_number'' (PStr ''N/A''))
            (dict_get (dict_default (metadata_kb result) []) ''chunk_number'' (PStr ''N/A''))
            (py_round (float_sub 1 (float_div (dict_default (distance result) 1) 2)) 2)"
  let ?web = "\<lambda>s. WebSearchSource (dict_default (title_opt s) ''No title'')
                   (dict_default (url_opt s) []) (dict_default (score_opt s) 0)"
  have eq: "format_sources kb_results ss = map ?kb (take 3 kb_results) @ map ?web (take 3 ss)" for ss
    by (simp add: format_sources_def foldl_append_each py_slice_prefix Let_def)
  show ?thesis
    unfolding eq
    by (auto simp: nth_append dict_default_def min_def to_dict_def)
qed

theorem format_sources_composition_witness:
  "format_sources
     (replicate 5 \<lparr>content_kb = None, metadata_kb = Some [(''filename'', PStr ''a.pdf'')],
                    distance = Some (7656119366529843 / 9007199254740992), id_kb = None\<rparr>)
     (map to_dict (replicate 4 \<lparr>title = ''T'', url = ''u'', content_sr = ''c'', score = 33 / 100\<rparr>))
   = [KnowledgeBaseSource (PStr ''a.pdf'') (PStr ''N/A'') (PStr ''N/A'') (5134103575202365 / 9007199254740992),
      KnowledgeBaseSource (PStr ''a.pdf'') (PStr ''N/A'') (PStr ''N/A'') (5134103575202365 / 9007199254740992),
      KnowledgeBaseSource (PStr ''a.pdf'') (PStr ''N/A'') (PStr ''N/A'') (5134103575202365 / 9007199254740992),
      WebSearchSource ''T'' ''u'' (33 / 100),
      WebSearchSource ''T'' ''u'' (33 / 100),
      WebSearchSource ''T'' ''u'' (33 / 100)] \<and>
   length (format_sources
     (replicate 5 \<lparr>content_kb = None, metadata_kb = Some [(''filename'', PStr ''a.pdf'')],
                    distance = Some (7656119366529843 / 9007199254740992), id_kb = None\<rparr>)
     (map to_dict (replicate 4 \<lparr>title = ''T'', url = ''u'', content_sr = ''c'', score = 33 / 100\<rparr>))) = 6 \<and>
   source_type (format_sources
     (replicate 5 \<lparr>content_kb = None, metadata_kb = Some [(''filename'', PStr ''a.pdf'')],
                    distance = Some (7656119366529843 / 9007199254740992), id_kb = None\<rparr>)
     (map to_dict (replicate 4 \<lparr>title = ''T'', url = ''u'', content_sr = ''c'', score = 33 / 100\<rparr>)) ! 2)
     = ''knowledge_base'' \<and>
   source_type (format_sources
     (replicate 5 \<lparr>content_kb = None, metadata_kb = Some [(''filename'', PStr ''a.pdf'')],
                    distance = Some (7656119366529843 / 9007199254740992), id_kb = None\<rparr>)
     (map to_dict (replicate 4 \<lparr>title = ''T'', url = ''u'', content_sr = ''c'', score = 33 / 100\<rparr>)) ! 3)
     = ''web_search'' \<and>
   relevance_score (format_sources
     (replicate 5 \<lparr>content_kb = None, metadata_kb = Some [(''filename'', PStr ''a.pdf'')],
                    distance = Some (7656119366529843 / 9007199254740992), id_kb = None\<rparr>)
     (map to_dict (replicate 4 \<lparr>title = ''T'', url = ''u'', content_sr = ''c'', score = 33 / 100\<rparr>)) ! 2)
     = 5134103575202365 / 9007199254740992 \<and>
   format_sources
     (replicate 5 \<lparr>content_kb = None, metadata_kb = Some [(''filename'', PStr ''a.pdf'')],
                    distance = Some (7656119366529843 / 9007199254740992), id_kb = None\<rparr>)
     (map to_dict (replicate 4 \<lparr>title = ''T'', url = ''u'', content_sr = ''c'', score = 33 / 100\<rparr>)) ! 5
     = WebSearchSource ''T'' ''u'' (33 / 100)"
proof -
  let ?kb = "replicate 5 \<lparr>content_kb = None, metadata_kb = Some [(''filename'', PStr ''a.pdf'')],
                    distance = Some (7656119366529843 / 9007199254740992 :: real), id_kb = None\<rparr>"
  let ?srs = "replicate 4 \<lparr>title = ''T'', url = ''u'', content_sr = ''c'', score = (33 / 100 :: real)\<rparr>"
  note at_lists = format_sources_composition[where kb_results = ?kb
      and search_sources = "map to_dict ?srs" and search_results = ?srs
      and d = "7656119366529843 / 9007199254740992"]
  have ln: "length (format_sources ?kb (map to_dict ?srs)) = 6"
    using at_lists[THEN conjunct2, THEN conjunct1] by simp
  have scored: "py_round (float_sub 1 (float_div (7656119366529843 / 9007199254740992) 2)) 2
      = 5134103575202365 / 9007199254740992"
    by (simp only: score_at_0_85 round_at_0_85)
  have entries: "format_sources ?kb (map to_dict ?srs)
      = [KnowledgeBaseSource (PStr ''a.pdf'') (PStr ''N/A'') (PStr ''N/A'') (5134103575202365 / 9007199254740992),
      KnowledgeBaseSource (PStr ''a.pdf'') (PStr ''N/A'') (PStr ''N/A'') (5134103575202365 / 9007199254740992),
      KnowledgeBaseSource (PStr ''a.pdf'') (PStr ''N/A'') (PStr ''N/A'') (5134103575202365 / 9007199254740992),
      WebSearchSource ''T'' ''u'' (33 / 100),
      WebSearchSource ''T'' ''u'' (33 / 100),
      WebSearchSource ''T'' ''u'' (33 / 100)]"
    unfolding at_lists[THEN conjunct1]
    using scored
    by (simp add: numeral_eq_Suc dict_default_def dict_get_def to_dict_def)
  have types: "\<forall>i < length (format_sources ?kb (map to_dict ?srs)).
      source_type (format_sources ?kb (map to_dict ?srs) ! i)
        = (if i < min 3 (length ?kb) then ''knowledge_base'' else ''web_search'')"
    by (rule at_lists[THEN conjunct2, THEN conjunct2, THEN conjunct2, THEN conjunct1])
  have kb2: "source_type (format_sources ?kb (map to_dict ?srs) ! 2) = ''knowledge_base''"
    using types[rule_format, of 2] ln by simp
  have web3: "source_type (format_sources ?kb (map to_dict ?srs) ! 3) = ''web_search''"
    using types[rule_format, of 3] ln by simp
  have rel: "\<forall>i < min 3 (length ?kb). distance (?kb ! i) = Some (7656119366529843 / 9007199254740992) \<longrightarrow>
      relevance_score (format_sources ?kb (map to_dict ?srs) ! i)
        = py_round (float_sub 1 (float_div (7656119366529843 / 9007199254740992) 2)) 2"
    by (rule at_lists[THEN conjunct2, THEN conjunct2, THEN conjunct2, THEN conjunct2, THEN conjunct1])
  have rel2: "relevance_score (format_sources ?kb (map to_dict ?srs) ! 2)
      = 5134103575202365 / 9007199254740992"
    using rel[rule_format, of 2] unfolding scored by simp
  have web: "\<forall>j < min 3 (length ?srs).
      format_sources ?kb (map to_dict ?srs) ! (min 3 (length ?kb) + j)
        = WebSearchSource (title (?srs ! j)) (url (?srs ! j)) (score (?srs ! j))"
    by (rule at_lists[THEN conjunct2, THEN conjunct2, THEN conjunct2, THEN conjunct2, THEN conjunct2])
  have web5: "format_sources ?kb (map to_dict ?srs) ! 5 = WebSearchSource ''T'' ''u'' (33 / 100)"
    using web[rule_format, of 2] by simp
  show ?thesis
    by (intro conjI entries ln kb2 web3 rel2 web5)
qed

section \<open>Every window of a short text\<close>

lemma le_div_step:
  assumes "0 < (step::int)"
  shows "a \<le> b div step \<longleftrightarrow> a * step \<le> b"
proof
  have decomp: "b = b div step * step + b mod step" by simp
  have m: "0 \<le> b mod step" "b mod step < step" using assms by simp_all
  {
    assume "a \<le> b div step"
    then have "a * step \<le> b div step * step" using assms by (simp add: mult_right_mono)
    with decomp m show "a * step \<le> b" by linarith
  }
  {
    assume le: "a * step \<le> b"
    show "a \<le> b div step"
    proof (rule ccontr)
      assume "\<not> a \<le> b div step"
      then have "b div step + 1 \<le> a" by simp
      then have "(b div step + 1) * step \<le> a * step" using assms by (simp only: mult_right_mono less_imp_le)
      then have "b div step * step + step \<le> a * step" by (simp add: algebra_simps)
      with le decomp m show False by linarith
    qed
  }
qed

lemma windows_count:
  assumes "0 < (step::int)"
  shows "int k * step < len \<longleftrightarrow> k < nat ((len + step - 1) div step)"
proof -
  have "k < nat ((len + step - 1) div step) \<longleftrightarrow> int k + 1 \<le> (len + step - 1) div step"
    by linarith
  also have "\<dots> \<longleftrightarrow> (int k + 1) * step \<le> len + step - 1"
    using assms by (rule le_div_step)
  also have "\<dots> \<longleftrightarrow> int k * step < len"
  proof -
    have "(int k + 1) * step = int k * step + step" by (simp add: algebra_simps)
    then show ?thesis by linarith
  qed
  finally show ?thesis by simp
qed


text \<open>
  The runs on a text shorter than \<open>chunk_size\<close>: no window is trimmed, so the
  \<open>k\<close>-th pass starts at \<open>k * (chunk_size - chunk_overlap)\<close>.
\<close>

lemma chunk_loop_short:
  assumes step: "0 < chunk_size self - chunk_overlap self"
    and short: "int (length text) < chunk_size self"
  shows "chunk_loop self text md (int k * (chunk_size self - chunk_overlap self)) (int k) acc
    = Some (acc @ map (\<lambda>i. make_chunk md (int i) (int i * (chunk_size self - chunk_overlap self))
                (py_slice text (int i * (chunk_size self - chunk_overlap self))
                   (int i * (chunk_size self - chunk_overlap self) + chunk_size self),
                 int i * (chunk_size self - chunk_overlap self) + chunk_size self))
          [k ..< nat ((int (length text) + (chunk_size self - chunk_overlap self) - 1)
                    div (chunk_size self - chunk_overlap self))])"
proof -
  let ?step = "chunk_size self - chunk_overlap self"
  let ?n = "nat ((int (length text) + ?step - 1) div ?step)"
  let ?f = "\<lambda>i. make_chunk md (int i) (int i * ?step)
                (py_slice text (int i * ?step) (int i * ?step + chunk_size self),
                 int i * ?step + chunk_size self)"
  have "chunk_loop self text md (int k * ?step) (int k) acc = Some (acc @ map ?f [k ..< ?n])"
  proof (induction "?n - k" arbitrary: k acc)
    case 0
    then have "\<not> k < ?n" by simp
    then have "\<not> int k * ?step < int (length text)"
      using windows_count[OF step, of k "int (length text)"] by simp
    then have "chunk_loop self text md (int k * ?step) (int k) acc = Some acc"
      by (rule chunk_loop_stop)
    with \<open>\<not> k < ?n\<close> show ?case by simp
  next
    case (Suc m)
    then have lt: "k < ?n" by simp
    then have inside: "int k * ?step < int (length text)"
      using windows_count[OF step, of k "int (length text)"] by simp
    have nonneg: "0 \<le> int k * ?step" using step by simp
    with short have "\<not> int k * ?step + chunk_size self < int (length text)" by linarith
    then have wc: "window_cut self text (int k * ?step)
        = (py_slice text (int k * ?step) (int k * ?step + chunk_size self),
           int k * ?step + chunk_size self)"
      by (rule window_cut_last)
    have nxt: "int k * ?step + chunk_size self - chunk_overlap self = int (Suc k) * ?step"
      by (simp add: algebra_simps)
    from Suc.hyps(2) have m: "m = ?n - Suc k" by simp
    have "chunk_loop self text md (int k * ?step) (int k) acc
        = chunk_loop self text md (int (Suc k) * ?step) (int (Suc k)) (acc @ [?f k])"
      unfolding chunk_loop_step[OF inside] wc snd_conv nxt by (simp add: add.commute)
    also have "\<dots> = Some ((acc @ [?f k]) @ map ?f [Suc k ..< ?n])"
      by (rule Suc.hyps(1)[OF m])
    also have "(acc @ [?f k]) @ map ?f [Suc k ..< ?n] = acc @ map ?f [k ..< ?n]"
      using lt by (simp add: upt_conv_Cons)
    finally show ?case .
  qed
  then show ?thesis .
qed


text \<open>
  Claim C1, as the code has it. The empty text gives no chunk. A text shorter than
  \<open>chunk_size\<close> (with \<open>chunk_overlap < chunk_size\<close>) gives
  \<open>\<lceil>len(text) / (chunk_size - chunk_overlap)\<rceil>\<close> chunks. The first one spans the whole
  text (offsets \<open>0\<close> and \<open>chunk_size\<close>, the stripped text as content), and it is the only
  one exactly when the text is no longer than \<open>chunk_size - chunk_overlap\<close>. The window
  keeps sliding while \<open>start = end - chunk_overlap\<close> lies inside the text: each further
  chunk starts at the \<open>end_char\<close> of the chunk before it minus \<open>chunk_overlap\<close>, the
  \<open>i\<close>-th of them (from 1) at \<open>i * (chunk_size - chunk_overlap)\<close>; it records
  \<open>end_char = start_char + chunk_size\<close> and the chunk number \<open>i\<close>, and its content is
  the stripped text from its \<open>start_char\<close> to the end of the text.
\<close>

theorem chunk_text_short_text:
  "chunk_text self [] md = Some [] \<and>
   (chunk_overlap self < chunk_size self \<and> text \<noteq> [] \<and> int (length text) < chunk_size self \<longrightarrow>
    (\<exists>c rest. chunk_text self text md = Some (c # rest) \<and>
        content c = strip text \<and>
        map_of (metadata c) ''start_char'' = Some (PInt 0) \<and>
        map_of (metadata c) ''end_char'' = Some (PInt (chunk_size self)) \<and>
        (rest = [] \<longleftrightarrow> int (length text) \<le> chunk_size self - chunk_overlap self) \<and>
        int (length (c # rest))
          = (int (length text) + (chunk_size self - chunk_overlap self) - 1)
              div (chunk_size self - chunk_overlap self) \<and>
        (\<forall>i < length rest.
           start_char (rest ! i) = end_char ((c # rest) ! i) - chunk_overlap self \<and>
           start_char (rest ! i) = (int i + 1) * (chunk_size self - chunk_overlap self) \<and>
           end_char (rest ! i) = start_char (rest ! i) + chunk_size self \<and>
           map_of (metadata (rest ! i)) ''chunk_number'' = Some (PInt (int i + 1)) \<and>
           content (rest ! i) = strip (drop (nat (start_char (rest ! i))) text))))"
proof (intro conjI impI)
  show "chunk_text self [] md = Some []"
    by (simp add: chunk_text_def chunk_loop_stop)
next
  assume pre: "chunk_overlap self < chunk_size self \<and> text \<noteq> [] \<and> int (length text) < chunk_size self"
  let ?step = "chunk_size self - chunk_overlap self"
  let ?n = "nat ((int (length text) + ?step - 1) div ?step)"
  let ?f = "\<lambda>i. make_chunk md (int i) (int i * ?step)
                (py_slice text (int i * ?step) (int i * ?step + chunk_size self),
                 int i * ?step + chunk_size self)"
  let ?c = "?f 0"
  let ?rest = "map ?f [Suc 0 ..< ?n]"
  from pre have step: "0 < ?step" and ne: "0 < int (length text)"
    and short: "int (length text) < chunk_size self" by simp_all
  have pos: "0 < ?n" using windows_count[OF step, of 0 "int (length text)"] ne by simp
  have "chunk_text self text md = Some (map ?f [0 ..< ?n])"
    using chunk_loop_short[OF step short, of md 0 "[]"] by (simp add: chunk_text_def)
  also have "map ?f [0 ..< ?n] = ?c # ?rest" using pos by (simp add: upt_conv_Cons)
  finally have run: "chunk_text self text md = Some (?c # ?rest)" .
  have content0: "content ?c = strip text"
    using short by (simp add: content_make_chunk py_slice_whole)
  have start0: "map_of (metadata ?c) ''start_char'' = Some (PInt 0)"
    by (simp add: metadata_make_chunk)
  have end0: "map_of (metadata ?c) ''end_char'' = Some (PInt (chunk_size self))"
    by (simp add: metadata_make_chunk)
  have only: "?rest = [] \<longleftrightarrow> int (length text) \<le> ?step"
    using windows_count[OF step, of 1 "int (length text)"] by auto
  have "0 \<le> (int (length text) + ?step - 1) div ?step"
    using step ne by (simp add: pos_imp_zdiv_nonneg_iff)
  then have count: "int (length (?c # ?rest)) = (int (length text) + ?step - 1) div ?step"
    using pos by simp
  have f_start: "start_char (?f k) = int k * ?step" for k
    by (simp only: offsets_make_chunk)
  have f_end: "end_char (?f k) = int k * ?step + chunk_size self" for k
    by (simp only: offsets_make_chunk snd_conv)
  have f_num: "map_of (metadata (?f k)) ''chunk_number'' = Some (PInt (int k))" for k
    by (simp only: metadata_make_chunk)
  have f_content: "content (?f k) = strip (drop (nat (int k * ?step)) text)" for k
  proof -
    have "0 \<le> int k * ?step" using step by simp
    then have "py_slice text (int k * ?step) (int k * ?step + chunk_size self)
        = take (nat (chunk_size self)) (drop (nat (int k * ?step)) text)"
      using short by (simp add: py_slice_nonneg)
    also have "\<dots> = drop (nat (int k * ?step)) text"
      using short by simp
    finally show ?thesis by (simp only: content_make_chunk fst_conv)
  qed
  have further: "start_char (?rest ! i) = end_char ((?c # ?rest) ! i) - chunk_overlap self \<and>
           start_char (?rest ! i) = (int i + 1) * ?step \<and>
           end_char (?rest ! i) = start_char (?rest ! i) + chunk_size self \<and>
           map_of (metadata (?rest ! i)) ''chunk_number'' = Some (PInt (int i + 1)) \<and>
           content (?rest ! i) = strip (drop (nat (start_char (?rest ! i))) text)"
    if i: "i < length ?rest" for i
  proof -
    from i have i': "Suc i < ?n" by simp
    then have at: "?rest ! i = ?f (Suc i)" by simp
    have "(?c # ?rest) ! i = map ?f [0 ..< ?n] ! i" using pos by (simp add: upt_conv_Cons)
    also have "\<dots> = ?f i" using i' by simp
    finally have before: "(?c # ?rest) ! i = ?f i" .
    have s: "start_char (?rest ! i) = int (Suc i) * ?step"
      unfolding at by (rule f_start)
    have e: "end_char (?rest ! i) = int (Suc i) * ?step + chunk_size self"
      unfolding at by (rule f_end)
    have eb: "end_char ((?c # ?rest) ! i) = int i * ?step + chunk_size self"
      unfolding before by (rule f_end)
    have n: "map_of (metadata (?rest ! i)) ''chunk_number'' = Some (PInt (int (Suc i)))"
      unfolding at by (rule f_num)
    have c: "content (?rest ! i) = strip (drop (nat (int (Suc i) * ?step)) text)"
      unfolding at by (rule f_content)
    show ?thesis
      unfolding s e eb n c by (simp add: algebra_simps)
  qed
  show "\<exists>c rest. chunk_text self text md = Some (c # rest) \<and>
        content c = strip text \<and>
        map_of (metadata c) ''start_char'' = Some (PInt 0) \<and>
        map_of (metadata c) ''end_char'' = Some (PInt (chunk_size self)) \<and>
        (rest = [] \<longleftrightarrow> int (length text) \<le> chunk_size self - chunk_overlap self) \<and>
        int (length (c # rest))
          = (int (length text) + (chunk_size self - chunk_overlap self) - 1)
              div (chunk_size self - chunk_overlap self) \<and>
        (\<forall>i < length rest.
           start_char (rest ! i) = end_char ((c # rest) ! i) - chunk_overlap self \<and>
           start_char (rest ! i) = (int i + 1) * (chunk_size self - chunk_overlap self) \<and>
           end_char (rest ! i) = start_char (rest ! i) + chunk_size self \<and>
           map_of (metadata (rest ! i)) ''chunk_number'' = Some (PInt (int i + 1)) \<and>
           content (rest ! i) = strip (drop (nat (start_char (rest ! i))) text))"
    using run content0 start0 end0 only count further
    by (intro exI[of _ ?c] exI[of _ ?rest] conjI allI impI) blast+
qed

theorem chunk_text_short_text_witness:
  "chunk_overlap \<lparr>chunk_size = 10, chunk_overlap = 6\<rparr> < chunk_size \<lparr>chunk_size = 10, chunk_overlap = 6\<rparr> \<and>
   ''abcdefghi'' \<noteq> [] \<and>
   int (length ''abcdefghi'') < chunk_size \<lparr>chunk_size = 10, chunk_overlap = 6\<rparr> \<and>
   (\<exists>c c1 c2. chunk_text \<lparr>chunk_size = 10, chunk_overlap = 6\<rparr> ''abcdefghi'' [] = Some [c, c1, c2] \<and>
        content c = ''abcdefghi'' \<and>
        map_of (metadata c) ''start_char'' = Some (PInt 0) \<and>
        map_of (metadata c) ''end_char'' = Some (PInt 10) \<and>
        start_char c1 = 4 \<and> end_char c1 = 14 \<and> content c1 = ''efghi'' \<and>
        start_char c2 = 8 \<and> end_char c2 = 18 \<and> content c2 = ''i'')"
proof -
  let ?self = "\<lparr>chunk_size = 10, chunk_overlap = 6\<rparr>"
  have pre: "chunk_overlap ?self < chunk_size ?self \<and> ''abcdefghi'' \<noteq> [] \<and>
      int (length ''abcdefghi'') < chunk_size ?self"
    by simp
  from chunk_text_short_text[of ?self "[]" "''abcdefghi''", THEN conjunct2, THEN mp, OF pre]
  obtain c rest where run: "chunk_text ?self ''abcdefghi'' [] = Some (c # rest)"
    and c: "content c = strip ''abcdefghi''"
      "map_of (metadata c) ''start_char'' = Some (PInt 0)"
      "map_of (metadata c) ''end_char'' = Some (PInt (chunk_size ?self))"
    and count: "int (length (c # rest))
        = (int (length ''abcdefghi'') + (chunk_size ?self - chunk_overlap ?self) - 1)
            div (chunk_size ?self - chunk_overlap ?self)"
    and further: "\<forall>i < length rest.
           start_char (rest ! i) = end_char ((c # rest) ! i) - chunk_overlap ?self \<and>
           start_char (rest ! i) = (int i + 1) * (chunk_size ?self - chunk_overlap ?self) \<and>
           end_char (rest ! i) = start_char (rest ! i) + chunk_size ?self \<and>
           map_of (metadata (rest ! i)) ''chunk_number'' = Some (PInt (int i + 1)) \<and>
           content (rest ! i) = strip (drop (nat (start_char (rest ! i))) ''abcdefghi'')"
    by blast
  from count have len: "length rest = 2" by simp
  then obtain c1 c2 where rest: "rest = [c1, c2]"
    by (cases rest; cases "tl rest"; cases "tl (tl rest)") auto
  have at0: "rest ! 0 = c1" and at1: "rest ! 1 = c2" using rest by simp_all
  have in0: "0 < length rest" and in1: "1 < length rest" using len by simp_all
  note w1 = further[rule_format, OF in0, unfolded at0]
  note w2 = further[rule_format, OF in1, unfolded at1]
  have s1: "start_char c1 = 4" using w1[THEN conjunct2, THEN conjunct1] by simp
  have e1: "end_char c1 = 14"
    using w1[THEN conjunct2, THEN conjunct2, THEN conjunct1] unfolding s1 by simp
  have t1: "content c1 = strip (drop 4 ''abcdefghi'')"
    using w1[THEN conjunct2, THEN conjunct2, THEN conjunct2, THEN conjunct2] unfolding s1 by simp
  have s2: "start_char c2 = 8" using w2[THEN conjunct2, THEN conjunct1] by simp
  have e2: "end_char c2 = 18"
    using w2[THEN conjunct2, THEN conjunct2, THEN conjunct1] unfolding s2 by simp
  have t2: "content c2 = strip (drop 8 ''abcdefghi'')"
    using w2[THEN conjunct2, THEN conjunct2, THEN conjunct2, THEN conjunct2] unfolding s2 by simp
  note c1 = s1 e1 t1
  note c2 = s2 e2 t2
  have strips: "strip ''abcdefghi'' = ''abcdefghi''" "strip (drop 4 ''abcdefghi'') = ''efghi''"
    "strip (drop 8 ''abcdefghi'') = ''i''"
    by (simp_all add: strip_def isspace_def)
  from run rest c c1 c2 strips pre show ?thesis by simp
qed

section \<open>Rounding in the search gate\<close>

text \<open>
  Two distances at which the exact \<open>1 - d / 2\<close> is below the threshold and the float
  \<open>1.0 - d / 2.0\<close> is not: \<open>0.6000000000000002\<close> with the threshold \<open>0.7\<close>, and \<open>2 ^ -54\<close>
  with the threshold \<open>1.0\<close>. \<open>should_use_search\<close> is false at both.
\<close>

lemma score_rounds_up:
  "float_sub 1 (float_div (5404319552844597 / 9007199254740992) 2)
     = 3152519739159347 / 4503599627370496"
  "float_sub 1 (float_div (1 / 18014398509481984) 2) = 1"
proof -
  have half: "float_div (5404319552844597 / 9007199254740992) 2
      = 5404319552844597 / 18014398509481984"
    unfolding float_div_def
    using float_round_below_one[of "5404319552844597 / 9007199254740992 / 2" 1]
    by (simp add: round_half_even_def Let_def)
  show "float_sub 1 (float_div (5404319552844597 / 9007199254740992) 2)
     = 3152519739159347 / 4503599627370496"
    unfolding half float_sub_def
    using float_round_below_one[of "1 - 5404319552844597 / 18014398509481984" 0]
    by (simp add: round_half_even_def Let_def)
  have tiny: "float_div (1 / 18014398509481984) 2 = 1 / 36028797018963968"
    unfolding float_div_def
    using float_round_below_one[of "1 / 18014398509481984 / 2" 54]
    by (simp add: round_half_even_def Let_def)
  show "float_sub 1 (float_div (1 / 18014398509481984) 2) = 1"
    unfolding tiny float_sub_def
    using float_round_below_one[of "1 - 1 / 36028797018963968" 0]
    by (simp add: round_half_even_def Let_def)
qed

lemma should_use_search_rounds:
  "1 - (5404319552844597 / 9007199254740992) / 2 < (3152519739159347 / 4503599627370496 :: real) \<and>
   \<not> should_use_search
       [\<lparr>content_kb = None, metadata_kb = None,
         distance = Some (5404319552844597 / 9007199254740992), id_kb = None\<rparr>]
       (3152519739159347 / 4503599627370496) \<and>
   1 - (1 / 18014398509481984) / 2 < (1 :: real) \<and>
   \<not> should_use_search
       [\<lparr>content_kb = None, metadata_kb = None,
         distance = Some (1 / 18014398509481984), id_kb = None\<rparr>] 1"
  by (simp add: should_use_search_def dict_default_def Let_def score_rounds_up)

end
